theory Spec2Isabelle
  imports Complex_Main
begin

section \<open>Data model of the network connections card\<close>

text \<open>
  The card (class \<open>NetworkConnectionsCard\<close>) keeps a node map, an edge list and the last
  filtered snapshot as instance fields and mutates them in \<open>_deltaUpdate\<close>. The model
  passes these fields around as a record. JavaScript numbers are modelled by the reals;
  the values a coordinate field can hold besides a number are kept apart. The node map is
  an object used as a dictionary from node ids to nodes; a port number is a natural number,
  written in decimal where a template literal puts it into a string.
\<close>

datatype jsnum = Undefined | Null | Num real | NaN

datatype kind = Hub | Port | Ip

record node =
  node_id :: string
  node_type :: kind
  node_label :: "string option"
  node_x :: jsnum
  node_y :: jsnum
  node_fx :: jsnum
  node_fy :: jsnum

record conn =
  source :: string
  target :: string
  port :: nat

text \<open>
  An edge \<open>{source, target}\<close>. The simulation replaces an endpoint id by the node object
  with that id; the card reads an endpoint as \<open>l.source.id || l.source\<close>, which is the id
  in both cases, so the model keeps the ids.
\<close>

type_synonym link = "string \<times> string"

text \<open>
  What \<open>JSON.parse\<close> can hand back for one field of a stored position: nothing, null, a
  number, or any other value. A stored record maps node ids to such positions.
\<close>

datatype json = JMissing | JNull | JNum real | JOther

record pos =
  pos_x :: json
  pos_y :: json
  pos_fx :: json
  pos_fy :: json

text \<open>
  The instance fields of the card, together with the two pieces of the environment the
  methods read and write: the \<open>localStorage\<close> entry under the card's key (\<open>None\<close> when
  there is no entry or it does not parse) and the number of \<open>Math.random()\<close> calls made
  so far.
\<close>

record state =
  nodesMap :: "string \<rightharpoonup> node"
  links :: "link list"
  prevConnections :: "conn list"
  positionsRestored :: bool
  storage :: "(string \<rightharpoonup> pos) option"
  draws :: nat

text \<open>The configured hub id and the stream of values \<open>Math.random()\<close> returns.\<close>

record env =
  hubId :: string
  mathRandom :: "nat \<Rightarrow> real"

definition initial :: "(string \<rightharpoonup> pos) option \<Rightarrow> state" where
  "initial st = \<lparr>nodesMap = Map.empty, links = [], prevConnections = [],
     positionsRestored = False, storage = st, draws = 0\<rparr>"

section \<open>Strings built by template literals\<close>

definition digit :: "nat \<Rightarrow> char" where
  "digit d = ''0123456789'' ! d"

fun string_of_nat :: "nat \<Rightarrow> string" where
  "string_of_nat n =
     (if n < 10 then [digit n] else string_of_nat (n div 10) @ [digit (n mod 10)])"

declare string_of_nat.simps [simp del]

definition portNodeId :: "nat \<Rightarrow> string" where
  "portNodeId p = ''port-'' @ string_of_nat p"

definition portLabel :: "nat \<Rightarrow> string" where
  "portLabel p = ''Port '' @ string_of_nat p"

definition connectionKey :: "conn \<Rightarrow> string" where
  "connectionKey c = source c @ ''_'' @ target c @ ''_'' @ string_of_nat (port c)"

definition linkKey :: "link \<Rightarrow> string" where
  "linkKey l = fst l @ ''->'' @ snd l"

section \<open>The update cycle of network-connections-card.js\<close>

definition filterLoopback :: "conn list \<Rightarrow> conn list" where
  "filterLoopback cs = filter (\<lambda>c. source c \<noteq> ''127.0.0.1'' \<and> target c \<noteq> ''127.0.0.1'') cs"

definition addedConnections :: "conn list \<Rightarrow> conn list \<Rightarrow> conn list" where
  "addedConnections prev connections =
     filter (\<lambda>c. connectionKey c \<notin> set (map connectionKey prev)) connections"

definition removedConnections :: "conn list \<Rightarrow> conn list \<Rightarrow> conn list" where
  "removedConnections prev connections =
     filter (\<lambda>c. connectionKey c \<notin> set (map connectionKey connections)) prev"

text \<open>\<open>Array.from(new Set(xs))\<close>: the distinct values in order of first appearance.\<close>

definition uniq :: "'a list \<Rightarrow> 'a list" where
  "uniq xs = foldl (\<lambda>acc v. if v \<in> set acc then acc else acc @ [v]) [] xs"

definition hubNode :: "string \<Rightarrow> real \<Rightarrow> real \<Rightarrow> node" where
  "hubNode hub w h = \<lparr>node_id = hub, node_type = Hub, node_label = None,
     node_x = Undefined, node_y = Undefined, node_fx = Num (w / 2), node_fy = Num (h / 2)\<rparr>"

text \<open>
  The node map is a plain object (\<open>this._nodesMap = {}\<close>), so \<open>this._nodesMap[k]\<close> also
  finds the members every object inherits from \<open>Object.prototype\<close>: under these names the
  lookup is truthy whether or not a node is stored. \<open>truthyAt\<close> is that lookup. The
  functions below test the stored nodes alone, which is the same test for every id that
  is not one of these names.
\<close>

definition objectMembers :: "string list" where
  "objectMembers = [''constructor'', ''toString'', ''toLocaleString'', ''valueOf'',
     ''hasOwnProperty'', ''isPrototypeOf'', ''propertyIsEnumerable'', ''__proto__'',
     ''__defineGetter__'', ''__defineSetter__'', ''__lookupGetter__'', ''__lookupSetter__'']"

definition truthyAt :: "(string \<rightharpoonup> node) \<Rightarrow> string \<Rightarrow> bool" where
  "truthyAt nodes k \<longleftrightarrow> nodes k \<noteq> None \<or> k \<in> set objectMembers"

definition ensureHub :: "string \<Rightarrow> real \<Rightarrow> real \<Rightarrow> (string \<rightharpoonup> node) \<Rightarrow> (string \<rightharpoonup> node)" where
  "ensureHub hub w h nodes = (if nodes hub = None then nodes(hub \<mapsto> hubNode hub w h) else nodes)"

definition starRadius :: "real \<Rightarrow> real \<Rightarrow> nat \<Rightarrow> real" where
  "starRadius w h i =
     (let ringIndex = i div 8;
          starIndex = i mod 8;
          ringBase = min w h * 0.3 + real ringIndex * 150
      in if starIndex mod 2 = 0 then ringBase * 1.0 else ringBase * 0.5)"

definition starAngle :: "nat \<Rightarrow> real" where
  "starAngle i = (2 * pi / 8) * real (i mod 8)"

definition portNode :: "real \<Rightarrow> real \<Rightarrow> nat \<Rightarrow> nat \<Rightarrow> node" where
  "portNode w h i p = \<lparr>node_id = portNodeId p, node_type = Port, node_label = Some (portLabel p),
     node_x = Undefined, node_y = Undefined,
     node_fx = Num (w / 2 + cos (starAngle i) * starRadius w h i),
     node_fy = Num (h / 2 + sin (starAngle i) * starRadius w h i)\<rparr>"

definition placePort :: "real \<Rightarrow> real \<Rightarrow> (string \<rightharpoonup> node) \<Rightarrow> nat \<times> nat \<Rightarrow> (string \<rightharpoonup> node)" where
  "placePort w h nodes ip =
     (case ip of (i, p) \<Rightarrow>
        if nodes (portNodeId p) = None then nodes(portNodeId p \<mapsto> portNode w h i p) else nodes)"

definition placePorts :: "real \<Rightarrow> real \<Rightarrow> nat list \<Rightarrow> (string \<rightharpoonup> node) \<Rightarrow> (string \<rightharpoonup> node)" where
  "placePorts w h uniquePorts nodes = foldl (placePort w h) nodes (enumerate 0 uniquePorts)"

text \<open>\<open>a + b\<close> of JavaScript for a coordinate field \<open>a\<close> and a number \<open>b\<close>.\<close>

fun js_plus :: "jsnum \<Rightarrow> real \<Rightarrow> jsnum" where
  "js_plus (Num a) b = Num (a + b)"
| "js_plus Null b = Num b"
| "js_plus Undefined b = NaN"
| "js_plus NaN b = NaN"

definition ipNode :: "string \<Rightarrow> node" where
  "ipNode i = \<lparr>node_id = i, node_type = Ip, node_label = None,
     node_x = Undefined, node_y = Undefined, node_fx = Undefined, node_fy = Undefined\<rparr>"

text \<open>
  \<open>_placeIpNearPort\<close>. It returns before drawing a random number when the port node is
  absent. The node \<open>ipId\<close> has just been stored by the caller; JavaScript would raise on
  an absent one, a branch \<open>_deltaUpdate\<close> never reaches.
\<close>

definition placeIpNearPort ::
  "env \<Rightarrow> string \<Rightarrow> string \<Rightarrow> (string \<rightharpoonup> node) \<times> nat \<Rightarrow> (string \<rightharpoonup> node) \<times> nat" where
  "placeIpNearPort e ipId portId nd =
     (case nd of (nodes, d) \<Rightarrow>
        (case nodes portId of
           None \<Rightarrow> (nodes, d)
         | Some pn \<Rightarrow>
             (let angle = mathRandom e d * 2 * pi;
                  radius = 50;
                  ipX = js_plus (node_fx pn) (cos angle * radius);
                  ipY = js_plus (node_fy pn) (sin angle * radius)
              in (case nodes ipId of
                    None \<Rightarrow> (nodes, Suc d)
                  | Some n \<Rightarrow> (nodes(ipId \<mapsto> n\<lparr>node_x := ipX, node_y := ipY\<rparr>), Suc d)))))"

definition ensureIp ::
  "env \<Rightarrow> string \<Rightarrow> string \<Rightarrow> (string \<rightharpoonup> node) \<times> nat \<Rightarrow> (string \<rightharpoonup> node) \<times> nat" where
  "ensureIp e i portId nd =
     (case nd of (nodes, d) \<Rightarrow>
        if nodes i = None then placeIpNearPort e i portId (nodes(i \<mapsto> ipNode i), d)
        else (nodes, d))"

definition isIp :: "(string \<rightharpoonup> node) \<Rightarrow> string \<Rightarrow> bool" where
  "isIp nodes i = (case nodes i of None \<Rightarrow> False | Some n \<Rightarrow> node_type n = Ip)"

text \<open>The body of the loop over the added connections.\<close>

definition addConnection ::
  "env \<Rightarrow> (string \<rightharpoonup> node) \<times> link list \<times> nat \<Rightarrow> conn \<Rightarrow> (string \<rightharpoonup> node) \<times> link list \<times> nat" where
  "addConnection e st c =
     (case st of (nodes, lks, d) \<Rightarrow>
        (let portId = portNodeId (port c);
             nd1 = ensureIp e (source c) portId (nodes, d);
             nd2 = ensureIp e (target c) portId nd1;
             nodes2 = fst nd2;
             lks1 = (if isIp nodes2 (source c) then lks @ [(source c, portId)] else lks);
             lks2 = (if isIp nodes2 (target c) then lks1 @ [(portId, target c)] else lks1)
         in (nodes2, lks2, snd nd2)))"

definition processAdded ::
  "env \<Rightarrow> conn list \<Rightarrow> (string \<rightharpoonup> node) \<times> link list \<times> nat \<Rightarrow> (string \<rightharpoonup> node) \<times> link list \<times> nat" where
  "processAdded e added st = foldl (addConnection e) st added"

text \<open>The body of the loop over the removed connections: a filter by key.\<close>

definition removeConnection :: "link list \<Rightarrow> conn \<Rightarrow> link list" where
  "removeConnection lks c =
     filter (\<lambda>l. linkKey l \<noteq> source c @ ''->'' @ portNodeId (port c)
               \<and> linkKey l \<noteq> portNodeId (port c) @ ''->'' @ target c) lks"

definition processRemoved :: "conn list \<Rightarrow> link list \<Rightarrow> link list" where
  "processRemoved removed lks = foldl removeConnection lks removed"

definition ensureHubLink :: "string \<Rightarrow> link list \<Rightarrow> nat \<Rightarrow> link list" where
  "ensureHubLink hub lks p =
     (if hub @ ''->'' @ portNodeId p \<in> set (map linkKey lks) then lks
      else lks @ [(hub, portNodeId p)])"

definition ensureHubLinks :: "string \<Rightarrow> nat list \<Rightarrow> link list \<Rightarrow> link list" where
  "ensureHubLinks hub uniquePorts lks = foldl (ensureHubLink hub) lks uniquePorts"

definition usedNodeIds :: "string \<Rightarrow> link list \<Rightarrow> string set" where
  "usedNodeIds hub lks = set (map fst lks) \<union> set (map snd lks) \<union> {hub}"

definition pruneNodes :: "string \<Rightarrow> link list \<Rightarrow> (string \<rightharpoonup> node) \<Rightarrow> (string \<rightharpoonup> node)" where
  "pruneNodes hub lks nodes = (\<lambda>nid. if nid \<in> usedNodeIds hub lks then nodes nid else None)"

text \<open>
  \<open>_deltaUpdate\<close> of network-connections-card.js, up to the point where the simulation
  and the renderer are handed the node map and the edge list. \<open>w\<close> and \<open>h\<close> are
  \<open>window.innerWidth\<close> and \<open>window.innerHeight\<close>.
\<close>

definition deltaUpdate :: "env \<Rightarrow> real \<Rightarrow> real \<Rightarrow> conn list \<Rightarrow> state \<Rightarrow> state" where
  "deltaUpdate e w h newConnections s =
     (let connections = filterLoopback newConnections;
          added = addedConnections (prevConnections s) connections;
          removed = removedConnections (prevConnections s) connections;
          uniquePorts = uniq (map port connections);
          nodes1 = placePorts w h uniquePorts (ensureHub (hubId e) w h (nodesMap s));
          st2 = processAdded e added (nodes1, links s, draws s);
          links3 = ensureHubLinks (hubId e) uniquePorts (processRemoved removed (fst (snd st2)))
      in s\<lparr>nodesMap := pruneNodes (hubId e) links3 (fst st2),
           links := links3,
           prevConnections := connections,
           draws := snd (snd st2)\<rparr>)"

text \<open>A run of update cycles, each with its viewport and its snapshot.\<close>

type_synonym cycle = "real \<times> real \<times> conn list"

definition runCycle :: "env \<Rightarrow> state \<Rightarrow> cycle \<Rightarrow> state" where
  "runCycle e s cy = (case cy of (w, h, cs) \<Rightarrow> deltaUpdate e w h cs s)"

definition runCycles :: "env \<Rightarrow> cycle list \<Rightarrow> state \<Rightarrow> state" where
  "runCycles e cys s = foldl (runCycle e) s cys"

section \<open>Position persistence\<close>

text \<open>
  \<open>JSON.stringify\<close> drops a property that is \<open>undefined\<close> and writes \<open>null\<close> for
  \<open>NaN\<close>; \<open>JSON.parse\<close> reads the rest back as it was.
\<close>

fun toJson :: "jsnum \<Rightarrow> json" where
  "toJson Undefined = JMissing"
| "toJson Null = JNull"
| "toJson (Num r) = JNum r"
| "toJson NaN = JNull"

definition nodePosition :: "node \<Rightarrow> pos" where
  "nodePosition n = \<lparr>pos_x = toJson (node_x n), pos_y = toJson (node_y n),
     pos_fx = toJson (node_fx n), pos_fy = toJson (node_fy n)\<rparr>"

text \<open>
  \<open>_saveNodePositions\<close>; \<open>ok\<close> tells whether \<open>localStorage.setItem\<close> succeeds. A failure
  is caught and leaves the entry as it was.
\<close>

definition saveNodePositions :: "bool \<Rightarrow> state \<Rightarrow> state" where
  "saveNodePositions ok s =
     (if ok then s\<lparr>storage := Some (\<lambda>nid. map_option nodePosition (nodesMap s nid))\<rparr> else s)"

text \<open>\<open>if (typeof pos.x === "number") node.x = pos.x\<close>, for one field.\<close>

fun restoreField :: "json \<Rightarrow> jsnum \<Rightarrow> jsnum" where
  "restoreField (JNum r) old = Num r"
| "restoreField JMissing old = old"
| "restoreField JNull old = old"
| "restoreField JOther old = old"

definition restoreNode :: "pos \<Rightarrow> node \<Rightarrow> node" where
  "restoreNode p n = n\<lparr>node_x := restoreField (pos_x p) (node_x n),
     node_y := restoreField (pos_y p) (node_y n),
     node_fx := restoreField (pos_fx p) (node_fx n),
     node_fy := restoreField (pos_fy p) (node_fy n)\<rparr>"

definition restoreNodePositions :: "state \<Rightarrow> state" where
  "restoreNodePositions s =
     (case storage s of
        None \<Rightarrow> s
      | Some saved \<Rightarrow>
          s\<lparr>nodesMap := (\<lambda>nid. case nodesMap s nid of
                               None \<Rightarrow> None
                             | Some n \<Rightarrow> (case saved nid of
                                            None \<Rightarrow> Some n
                                          | Some p \<Rightarrow> Some (restoreNode p n)))\<rparr>)"

section \<open>The update cycle of the second copy of the card (part_001)\<close>

text \<open>
  The second copy rebuilds the whole edge list from the snapshot on every cycle, syncs it
  with the stored one in \<open>_syncNodesAndLinks\<close>, and restores the stored positions on the
  first cycle. Hub, port and IP nodes are created by the same code as above.
\<close>

definition syncNodesAndLinks :: "string \<Rightarrow> link list \<Rightarrow> state \<Rightarrow> state" where
  "syncNodesAndLinks hub newLinks s =
     (let newLinkSet = set (map linkKey newLinks);
          kept = filter (\<lambda>oldL. linkKey oldL \<in> newLinkSet) (links s);
          oldLinkSet = set (map linkKey kept);
          links1 = kept @ filter (\<lambda>nl. linkKey nl \<notin> oldLinkSet) newLinks
      in s\<lparr>nodesMap := pruneNodes hub links1 (nodesMap s), links := links1\<rparr>)"

definition deltaUpdate_p1 :: "env \<Rightarrow> real \<Rightarrow> real \<Rightarrow> conn list \<Rightarrow> state \<Rightarrow> state" where
  "deltaUpdate_p1 e w h connections0 s =
     (let connections = filterLoopback connections0;
          uniquePorts = uniq (map port connections);
          nodes1 = placePorts w h uniquePorts (ensureHub (hubId e) w h (nodesMap s));
          st2 = processAdded e connections (nodes1, [], draws s);
          newLinks = fst (snd st2) @ map (\<lambda>p. (hubId e, portNodeId p)) uniquePorts;
          s1 = syncNodesAndLinks (hubId e) newLinks (s\<lparr>nodesMap := fst st2, draws := snd (snd st2)\<rparr>)
      in if \<not> positionsRestored s1 then (restoreNodePositions s1)\<lparr>positionsRestored := True\<rparr>
         else s1)"

section \<open>Drag callbacks\<close>

definition dragStarted :: "node \<Rightarrow> node" where
  "dragStarted d = d\<lparr>node_fx := node_x d, node_fy := node_y d\<rparr>"

definition dragged :: "real \<Rightarrow> real \<Rightarrow> node \<Rightarrow> node" where
  "dragged ex ey d = d\<lparr>node_fx := Num ex, node_fy := Num ey\<rparr>"

definition dragEnded :: "node \<Rightarrow> node" where
  "dragEnded d = (if node_type d = Ip then d\<lparr>node_fx := Null, node_fy := Null\<rparr> else d)"

section \<open>Concrete inputs\<close>

definition demoEnv :: env where
  "demoEnv = \<lparr>hubId = ''192.168.2.1'', mathRandom = (\<lambda>_. 0)\<rparr>"

definition mkConn :: "string \<Rightarrow> string \<Rightarrow> nat \<Rightarrow> conn" where
  "mkConn s t p = \<lparr>source = s, target = t, port = p\<rparr>"

text \<open>Scenario A of the specification, and scenario B after it, on network-connections-card.js.\<close>

definition scenarioA :: "real \<Rightarrow> real \<Rightarrow> state" where
  "scenarioA w h = deltaUpdate demoEnv w h [mkConn ''10.0.0.2'' ''8.8.8.8'' 443] (initial None)"

definition scenarioB :: "real \<Rightarrow> real \<Rightarrow> real \<Rightarrow> real \<Rightarrow> state" where
  "scenarioB w h w' h' = deltaUpdate demoEnv w' h' [] (scenarioA w h)"

text \<open>The hub invariant: the hub node as first created, and no other node of kind hub.\<close>

definition hubInv :: "env \<Rightarrow> real \<Rightarrow> real \<Rightarrow> state \<Rightarrow> bool" where
  "hubInv e w h s \<longleftrightarrow> nodesMap s (hubId e) = Some (hubNode (hubId e) w h)
     \<and> {k. \<exists>n. nodesMap s k = Some n \<and> node_type n = Hub} = {hubId e}"


text \<open>A first cycle with no connection, then a cycle with one connection in a larger viewport.\<close>

definition resized :: state where
  "resized = deltaUpdate demoEnv 1000 800 [mkConn ''10.0.0.2'' ''8.8.8.8'' 443]
     (deltaUpdate demoEnv 800 600 [] (initial None))"


text \<open>Two tuples with the same source and port; and a tuple whose source is the hub.\<close>

definition twoSameSource :: state where
  "twoSameSource = deltaUpdate demoEnv 800 600
     [mkConn ''10.0.0.2'' ''8.8.8.8'' 80, mkConn ''10.0.0.2'' ''1.1.1.1'' 80] (initial None)"

definition hubAsSource :: state where
  "hubAsSource = deltaUpdate demoEnv 800 600
     [mkConn ''192.168.2.1'' ''8.8.8.8'' 80, mkConn ''10.0.0.2'' ''1.1.1.1'' 80] (initial None)"


text \<open>A stored record for the hub; and a card reloaded in a larger viewport after a save.\<close>

definition storedHub :: "string \<rightharpoonup> pos" where
  "storedHub = [''192.168.2.1'' \<mapsto> \<lparr>pos_x = JNum 10, pos_y = JNum 20, pos_fx = JNum 10, pos_fy = JNum 20\<rparr>]"

definition reloaded :: state where
  "reloaded = (scenarioA 1000 800)\<lparr>storage := storage (saveNodePositions True (scenarioA 800 600))\<rparr>"


section \<open>Update cycles and drag gestures on one timeline\<close>

text \<open>
  The events the card reacts to: an update cycle with its viewport and snapshot, and the
  three callbacks of a drag gesture on the node with a given id (\<open>DragMove\<close> with the
  pointer position, \<open>DragEnd\<close> with the outcome of the save it triggers). A callback
  mutates the node object the gesture holds; the model applies it to the node stored
  under the id, if there is one.
\<close>

datatype event =
  Update real real "conn list"
| DragStart string
| DragMove string real real
| DragEnd string bool

definition onNode :: "(node \<Rightarrow> node) \<Rightarrow> string \<Rightarrow> state \<Rightarrow> state" where
  "onNode f k s =
     (case nodesMap s k of None \<Rightarrow> s | Some d \<Rightarrow> s\<lparr>nodesMap := (nodesMap s)(k \<mapsto> f d)\<rparr>)"

fun step :: "env \<Rightarrow> state \<Rightarrow> event \<Rightarrow> state" where
  "step e s (Update w h cs) = deltaUpdate e w h cs s"
| "step e s (DragStart k) = onNode dragStarted k s"
| "step e s (DragMove k ex ey) = onNode (dragged ex ey) k s"
| "step e s (DragEnd k ok) = saveNodePositions ok (onNode dragEnded k s)"

definition runEvents :: "env \<Rightarrow> event list \<Rightarrow> state \<Rightarrow> state" where
  "runEvents e evs s = foldl (step e) s evs"

text \<open>The ids with a gesture in progress, and the order in which a gesture reports.\<close>

fun dragStep :: "string set \<Rightarrow> event \<Rightarrow> string set" where
  "dragStep ds (DragStart k) = insert k ds"
| "dragStep ds (DragEnd k ok) = ds - {k}"
| "dragStep ds (DragMove k ex ey) = ds"
| "dragStep ds (Update w h cs) = ds"

definition dragging :: "event list \<Rightarrow> string set" where
  "dragging evs = foldl dragStep {} evs"

fun inGesture :: "string set \<Rightarrow> event \<Rightarrow> bool" where
  "inGesture ds (DragMove k ex ey) = (k \<in> ds)"
| "inGesture ds (DragEnd k ok) = (k \<in> ds)"
| "inGesture ds (DragStart k) = True"
| "inGesture ds (Update w h cs) = True"

fun gestures :: "string set \<Rightarrow> event list \<Rightarrow> bool" where
  "gestures ds [] = True"
| "gestures ds (ev # evs) = (inGesture ds ev \<and> gestures (dragStep ds ev) evs)"

text \<open>\<open>fx != null\<close>: the simulation treats the node as pinned.\<close>

fun pinned :: "jsnum \<Rightarrow> bool" where
  "pinned Undefined = False"
| "pinned Null = False"
| "pinned (Num r) = True"
| "pinned NaN = True"

text \<open>
  The invariant of the IP nodes (a pinned IP node has a gesture in progress), the gesture
  of scenario D on an IP node, and the same gesture on the hub.
\<close>

definition ipFree :: "string set \<Rightarrow> state \<Rightarrow> bool" where
  "ipFree ds s \<longleftrightarrow> {k. \<exists>n. nodesMap s k = Some n \<and> node_type n = Ip
      \<and> (pinned (node_fx n) \<or> pinned (node_fy n))} \<subseteq> ds"

definition dragIpEvents :: "event list" where
  "dragIpEvents = [Update 800 600 [mkConn ''10.0.0.2'' ''8.8.8.8'' 443],
     DragStart ''10.0.0.2'', DragMove ''10.0.0.2'' 100 200, DragEnd ''10.0.0.2'' True]"

definition dragHubEvents :: "event list" where
  "dragHubEvents = [Update 800 600 [], DragStart ''192.168.2.1'',
     DragMove ''192.168.2.1'' 100 200, DragEnd ''192.168.2.1'' True]"


text \<open>
  Every endpoint of an edge has a node; and scenario A followed by the same snapshot with
  one more tuple, on a new port.
\<close>

definition linkEnds :: "state \<Rightarrow> bool" where
  "linkEnds s \<longleftrightarrow> set (map fst (links s)) \<union> set (map snd (links s)) \<subseteq> dom (nodesMap s)"

definition appended :: state where
  "appended = deltaUpdate demoEnv 800 600
     [mkConn ''10.0.0.2'' ''8.8.8.8'' 443, mkConn ''10.0.0.2'' ''1.1.1.1'' 80] (scenarioA 800 600)"


section \<open>Lemmas about the strings\<close>

lemma digit_inj: "a < 10 \<Longrightarrow> b < 10 \<Longrightarrow> digit a = digit b \<Longrightarrow> a = b"
proof -
  assume a: "a < 10" and b: "b < 10" and eq: "digit a = digit b"
  from a have "a \<in> {0,1,2,3,4,5,6,7,8,9}" by auto
  moreover from b have "b \<in> {0,1,2,3,4,5,6,7,8,9}" by auto
  ultimately show ?thesis using eq by (auto simp: digit_def)
qed

lemma digit_in_digits: "d < 10 \<Longrightarrow> digit d \<in> set ''0123456789''"
  unfolding digit_def by (rule nth_mem) simp

lemma string_of_nat_nonempty: "string_of_nat n \<noteq> []"
  by (subst string_of_nat.simps) simp

lemma string_of_nat_chars: "set (string_of_nat n) \<subseteq> set ''0123456789''"
proof (induction n rule: string_of_nat.induct)
  case (1 n)
  show ?case
  proof (cases "n < 10")
    case True
    then show ?thesis using digit_in_digits[of n] by (subst string_of_nat.simps) simp
  next
    case False
    have "n mod 10 < 10" by simp
    then have "digit (n mod 10) \<in> set ''0123456789''" by (rule digit_in_digits)
    with False 1 show ?thesis by (subst string_of_nat.simps) simp
  qed
qed

lemma string_of_nat_inj: "string_of_nat n = string_of_nat m \<Longrightarrow> n = m"
proof (induction n arbitrary: m rule: string_of_nat.induct)
  case (1 n)
  show ?case
  proof (cases "n < 10")
    case n: True
    show ?thesis
    proof (cases "m < 10")
      case True
      with n 1(2) show ?thesis
        by (simp add: string_of_nat.simps[of n] string_of_nat.simps[of m] digit_inj)
    next
      case False
      with n 1(2) string_of_nat_nonempty[of "m div 10"] show ?thesis
        by (simp add: string_of_nat.simps[of n] string_of_nat.simps[of m])
    qed
  next
    case n: False
    show ?thesis
    proof (cases "m < 10")
      case True
      with n 1(2) string_of_nat_nonempty[of "n div 10"] show ?thesis
        by (simp add: string_of_nat.simps[of n] string_of_nat.simps[of m])
    next
      case False
      with n 1(2) have eq: "string_of_nat (n div 10) = string_of_nat (m div 10)"
        and d: "digit (n mod 10) = digit (m mod 10)"
        by (simp_all add: string_of_nat.simps[of n] string_of_nat.simps[of m])
      from 1(1)[OF n eq] have "n div 10 = m div 10" .
      moreover from d have "n mod 10 = m mod 10" by (intro digit_inj) simp_all
      ultimately show ?thesis by (metis div_mult_mod_eq)
    qed
  qed
qed

lemma portNodeId_inj: "portNodeId p = portNodeId q \<Longrightarrow> p = q"
  by (simp add: portNodeId_def string_of_nat_inj)

lemma portNodeId_no_gt: "CHR ''>'' \<notin> set (portNodeId p)"
  using string_of_nat_chars[of p] by (auto simp: portNodeId_def)

lemma gt_in_tail: "ys @ c # d # zs = w \<Longrightarrow> d \<in> set w"
  by auto

lemma linkKey_eq_hub:
  assumes "CHR ''>'' \<notin> set hub" and "linkKey l = hub @ ''->'' @ portNodeId p"
  shows "l = (hub, portNodeId p)"
proof -
  obtain a b where l: "l = (a, b)" by (cases l)
  from assms(2) l have eq: "a @ ''->'' @ b = hub @ ''->'' @ portNodeId p" by (simp add: linkKey_def)
  have npid: "CHR ''>'' \<notin> set (portNodeId p)" by (rule portNodeId_no_gt)
  from eq assms(1) npid have "a = hub \<and> b = portNodeId p"
    by (auto simp: append_eq_append_conv2 append_eq_Cons_conv Cons_eq_append_conv
          dest: gt_in_tail)
  with l show ?thesis by simp
qed

section \<open>Lemmas about the phases of a cycle\<close>

subsection \<open>uniq\<close>

lemma uniq_fold_prefix:
  "\<exists>zs. foldl (\<lambda>acc v. if v \<in> set acc then acc else acc @ [v]) acc xs = acc @ zs"
proof (induction xs arbitrary: acc)
  case Nil
  show ?case by simp
next
  case (Cons a xs)
  show ?case
  proof (cases "a \<in> set acc")
    case True
    with Cons[of acc] show ?thesis by simp
  next
    case False
    from Cons[of "acc @ [a]"] obtain zs where
      "foldl (\<lambda>acc v. if v \<in> set acc then acc else acc @ [v]) (acc @ [a]) xs = (acc @ [a]) @ zs"
      by blast
    with False show ?thesis by simp
  qed
qed

lemma uniq_fold_set:
  "set (foldl (\<lambda>acc v. if v \<in> set acc then acc else acc @ [v]) acc xs) = set acc \<union> set xs"
  by (induction xs arbitrary: acc) auto

lemma uniq_fold_distinct:
  "distinct acc \<Longrightarrow> distinct (foldl (\<lambda>acc v. if v \<in> set acc then acc else acc @ [v]) acc xs)"
  by (induction xs arbitrary: acc) auto

lemma set_uniq: "set (uniq xs) = set xs"
  by (simp add: uniq_def uniq_fold_set)

lemma distinct_uniq: "distinct (uniq xs)"
  by (simp add: uniq_def uniq_fold_distinct)

lemma uniq_append_new:
  assumes "p \<notin> set xs"
  shows "\<exists>zs. uniq (xs @ p # ys) = uniq xs @ p # zs"
proof -
  have "uniq (xs @ p # ys) =
     foldl (\<lambda>acc v. if v \<in> set acc then acc else acc @ [v]) (uniq xs @ [p]) ys"
    using assms by (simp add: uniq_def uniq_fold_set)
  moreover obtain zs where
    "foldl (\<lambda>acc v. if v \<in> set acc then acc else acc @ [v]) (uniq xs @ [p]) ys = (uniq xs @ [p]) @ zs"
    using uniq_fold_prefix[of "uniq xs @ [p]" ys] by blast
  ultimately show ?thesis by simp
qed

subsection \<open>placePorts\<close>

lemma placePort_preserve: "nodes k = Some v \<Longrightarrow> placePort w h nodes ip k = Some v"
  by (cases ip) (auto simp: placePort_def)

lemma fold_placePort_preserve:
  "nodes k = Some v \<Longrightarrow> foldl (placePort w h) nodes xs k = Some v"
  by (induction xs arbitrary: nodes) (simp_all add: placePort_preserve)

lemma fold_placePort_present:
  "(i, p) \<in> set xs \<Longrightarrow> foldl (placePort w h) nodes xs (portNodeId p) \<noteq> None"
proof (induction xs arbitrary: nodes)
  case Nil
  then show ?case by simp
next
  case (Cons a xs)
  show ?case
  proof (cases "a = (i, p)")
    case True
    have "placePort w h nodes (i, p) (portNodeId p) \<noteq> None"
      by (simp add: placePort_def)
    then obtain v where "placePort w h nodes (i, p) (portNodeId p) = Some v" by blast
    then have "foldl (placePort w h) (placePort w h nodes (i, p)) xs (portNodeId p) = Some v"
      by (rule fold_placePort_preserve[where nodes = "placePort w h nodes (i, p)"])
    with True show ?thesis by simp
  next
    case False
    with Cons.prems have "(i, p) \<in> set xs" by simp
    from Cons.IH[OF this] show ?thesis by simp
  qed
qed

lemma fold_placePort_new:
  "foldl (placePort w h) nodes xs k = Some v \<Longrightarrow>
     nodes k = Some v \<or> (\<exists>i p. (i, p) \<in> set xs \<and> k = portNodeId p \<and> v = portNode w h i p)"
proof (induction xs arbitrary: nodes)
  case Nil
  then show ?case by simp
next
  case (Cons a xs)
  obtain j q where a: "a = (j, q)" by (cases a)
  from Cons.prems have "foldl (placePort w h) (placePort w h nodes a) xs k = Some v" by simp
  from Cons.IH[OF this] show ?case
  proof
    assume "placePort w h nodes a k = Some v"
    then show ?thesis using a by (auto simp: placePort_def split: if_splits)
  next
    assume "\<exists>i p. (i, p) \<in> set xs \<and> k = portNodeId p \<and> v = portNode w h i p"
    then show ?thesis by auto
  qed
qed

lemma fold_placePort_id:
  "(\<And>i p. (i, p) \<in> set xs \<Longrightarrow> nodes (portNodeId p) \<noteq> None) \<Longrightarrow>
     foldl (placePort w h) nodes xs = nodes"
proof (induction xs)
  case Nil
  show ?case by simp
next
  case (Cons a xs)
  obtain j q where a: "a = (j, q)" by (cases a)
  from Cons.prems[of j q] a have "placePort w h nodes a = nodes" by (auto simp: placePort_def)
  moreover have "foldl (placePort w h) nodes xs = nodes"
    by (rule Cons.IH) (use Cons.prems in auto)
  ultimately show ?case by simp
qed

lemma fold_placePort_created:
  "distinct (map snd xs) \<Longrightarrow> (i, p) \<in> set xs \<Longrightarrow> nodes (portNodeId p) = None \<Longrightarrow>
     foldl (placePort w h) nodes xs (portNodeId p) = Some (portNode w h i p)"
proof (induction xs arbitrary: nodes)
  case Nil
  then show ?case by simp
next
  case (Cons a xs)
  obtain j q where a: "a = (j, q)" by (cases a)
  show ?case
  proof (cases "a = (i, p)")
    case True
    with Cons.prems(3) have "placePort w h nodes a (portNodeId p) = Some (portNode w h i p)"
      by (simp add: placePort_def)
    then have "foldl (placePort w h) (placePort w h nodes a) xs (portNodeId p) = Some (portNode w h i p)"
      by (rule fold_placePort_preserve[where nodes = "placePort w h nodes a"])
    then show ?thesis by simp
  next
    case False
    with Cons.prems(2) have mem: "(i, p) \<in> set xs" by simp
    with Cons.prems(1) a have "q \<noteq> p" by force
    then have "portNodeId q \<noteq> portNodeId p" using portNodeId_inj by blast
    with Cons.prems(3) a have "placePort w h nodes a (portNodeId p) = None"
      by (simp add: placePort_def)
    moreover from Cons.prems(1) have "distinct (map snd xs)" by simp
    ultimately show ?thesis using Cons.IH mem by simp
  qed
qed

lemma placePorts_preserve: "nodes k = Some v \<Longrightarrow> placePorts w h ps nodes k = Some v"
  by (simp add: placePorts_def fold_placePort_preserve)

lemma placePorts_present:
  assumes "p \<in> set ps" shows "placePorts w h ps nodes (portNodeId p) \<noteq> None"
proof -
  from assms obtain i where "i < length ps" "ps ! i = p" by (auto simp: in_set_conv_nth)
  then have "(i, p) \<in> set (enumerate 0 ps)" by (auto simp: in_set_enumerate_eq)
  then show ?thesis unfolding placePorts_def by (rule fold_placePort_present)
qed

lemma placePorts_new:
  assumes "placePorts w h ps nodes k = Some v"
  shows "nodes k = Some v \<or> (\<exists>i. i < length ps \<and> k = portNodeId (ps ! i) \<and> v = portNode w h i (ps ! i))"
  using fold_placePort_new[OF assms[unfolded placePorts_def]]
  by (auto simp: in_set_enumerate_eq)

lemma placePorts_id:
  assumes "\<And>p. p \<in> set ps \<Longrightarrow> nodes (portNodeId p) \<noteq> None"
  shows "placePorts w h ps nodes = nodes"
  unfolding placePorts_def
  by (rule fold_placePort_id) (use assms in \<open>auto simp: in_set_enumerate_eq\<close>)

lemma placePorts_created:
  assumes "distinct ps" "i < length ps" "nodes (portNodeId (ps ! i)) = None"
  shows "placePorts w h ps nodes (portNodeId (ps ! i)) = Some (portNode w h i (ps ! i))"
  unfolding placePorts_def
proof (rule fold_placePort_created)
  show "distinct (map snd (enumerate 0 ps))" using assms(1) by simp
  show "(i, ps ! i) \<in> set (enumerate 0 ps)" using assms(2) by (simp add: in_set_enumerate_eq)
  show "nodes (portNodeId (ps ! i)) = None" by (rule assms(3))
qed


subsection \<open>IP nodes and their edges\<close>

lemma placeIpNearPort_other:
  "k \<noteq> i \<Longrightarrow> fst (placeIpNearPort e i pid (nodes, d)) k = nodes k"
  by (simp add: placeIpNearPort_def Let_def split: option.splits)

lemma placeIpNearPort_self:
  "nodes i = Some n \<Longrightarrow>
   \<exists>n'. fst (placeIpNearPort e i pid (nodes, d)) i = Some n' \<and> node_type n' = node_type n
      \<and> node_fx n' = node_fx n \<and> node_fy n' = node_fy n \<and> node_id n' = node_id n
      \<and> node_label n' = node_label n"
  by (simp add: placeIpNearPort_def Let_def split: option.splits)

lemma ensureIp_preserve:
  "nodes k = Some v \<Longrightarrow> fst (ensureIp e i pid (nodes, d)) k = Some v"
  by (cases "k = i") (simp_all add: ensureIp_def placeIpNearPort_other)

lemma ensureIp_new:
  assumes "fst (ensureIp e i pid (nodes, d)) k = Some v"
  shows "nodes k = Some v \<or>
     (k = i \<and> nodes k = None \<and> node_type v = Ip \<and> node_fx v = Undefined \<and> node_fy v = Undefined)"
proof (cases "nodes i = None")
  case False
  with assms show ?thesis by (simp add: ensureIp_def)
next
  case True
  show ?thesis
  proof (cases "k = i")
    case False
    with assms True show ?thesis by (simp add: ensureIp_def placeIpNearPort_other)
  next
    case k: True
    have "(nodes(i \<mapsto> ipNode i)) i = Some (ipNode i)" by simp
    from placeIpNearPort_self[where nodes = "nodes(i \<mapsto> ipNode i)" and i = i, OF this, of e pid d]
      assms True k
    show ?thesis by (auto simp: ensureIp_def ipNode_def)
  qed
qed

lemma ensureIp_present: "fst (ensureIp e i pid (nodes, d)) i \<noteq> None"
proof (cases "nodes i = None")
  case False
  then show ?thesis by (auto simp: ensureIp_def)
next
  case True
  have "(nodes(i \<mapsto> ipNode i)) i = Some (ipNode i)" by simp
  from placeIpNearPort_self[where nodes = "nodes(i \<mapsto> ipNode i)" and i = i, OF this, of e pid d]
    True show ?thesis
    by (auto simp: ensureIp_def)
qed

lemma ensureIp_id: "nodes i \<noteq> None \<Longrightarrow> ensureIp e i pid (nodes, d) = (nodes, d)"
  by (auto simp: ensureIp_def)

lemma isIp_preserve: "nodes k = Some v \<Longrightarrow> nodes' k = Some v \<Longrightarrow> isIp nodes' k = isIp nodes k"
  by (simp add: isIp_def)

lemma addConnection_nodes:
  "fst (addConnection e (nodes, lks, d) c) =
     fst (ensureIp e (target c) (portNodeId (port c))
            (ensureIp e (source c) (portNodeId (port c)) (nodes, d)))"
  by (simp add: addConnection_def Let_def)

lemma addConnection_preserve:
  assumes "nodes k = Some v"
  shows "fst (addConnection e (nodes, lks, d) c) k = Some v"
proof -
  obtain n1 d1 where s1: "ensureIp e (source c) (portNodeId (port c)) (nodes, d) = (n1, d1)"
    by (cases "ensureIp e (source c) (portNodeId (port c)) (nodes, d)")
  have "fst (ensureIp e (source c) (portNodeId (port c)) (nodes, d)) k = Some v"
    by (rule ensureIp_preserve) (rule assms)
  with s1 have "n1 k = Some v" by simp
  then have "fst (ensureIp e (target c) (portNodeId (port c)) (n1, d1)) k = Some v"
    by (rule ensureIp_preserve)
  with s1 show ?thesis by (simp add: addConnection_nodes)
qed

lemma addConnection_new:
  assumes "fst (addConnection e (nodes, lks, d) c) k = Some v"
  shows "nodes k = Some v \<or>
     (nodes k = None \<and> (k = source c \<or> k = target c) \<and> node_type v = Ip
        \<and> node_fx v = Undefined \<and> node_fy v = Undefined)"
proof -
  obtain n1 d1 where s1: "ensureIp e (source c) (portNodeId (port c)) (nodes, d) = (n1, d1)"
    by (cases "ensureIp e (source c) (portNodeId (port c)) (nodes, d)")
  from assms s1 have "fst (ensureIp e (target c) (portNodeId (port c)) (n1, d1)) k = Some v"
    by (simp add: addConnection_nodes)
  from ensureIp_new[OF this]
  show ?thesis
  proof
    assume "n1 k = Some v"
    with s1 have "fst (ensureIp e (source c) (portNodeId (port c)) (nodes, d)) k = Some v" by simp
    from ensureIp_new[OF this] show ?thesis by auto
  next
    assume a: "k = target c \<and> n1 k = None \<and> node_type v = Ip \<and> node_fx v = Undefined \<and> node_fy v = Undefined"
    have "nodes k = None"
    proof (rule ccontr)
      assume "nodes k \<noteq> None"
      then obtain u where "nodes k = Some u" by blast
      then have "fst (ensureIp e (source c) (portNodeId (port c)) (nodes, d)) k = Some u"
        by (rule ensureIp_preserve)
      with s1 a show False by auto
    qed
    with a show ?thesis by simp
  qed
qed

lemma addConnection_present:
  "fst (addConnection e (nodes, lks, d) c) (source c) \<noteq> None"
  "fst (addConnection e (nodes, lks, d) c) (target c) \<noteq> None"
proof -
  obtain n1 d1 where s1: "ensureIp e (source c) (portNodeId (port c)) (nodes, d) = (n1, d1)"
    by (cases "ensureIp e (source c) (portNodeId (port c)) (nodes, d)")
  from ensureIp_present[of e "source c" "portNodeId (port c)" nodes d] s1
  obtain u where "n1 (source c) = Some u" by auto
  then have "fst (ensureIp e (target c) (portNodeId (port c)) (n1, d1)) (source c) = Some u"
    by (rule ensureIp_preserve)
  with s1 show "fst (addConnection e (nodes, lks, d) c) (source c) \<noteq> None"
    by (simp add: addConnection_nodes)
  from ensureIp_present[of e "target c" "portNodeId (port c)" n1 d1] s1
  show "fst (addConnection e (nodes, lks, d) c) (target c) \<noteq> None"
    by (simp add: addConnection_nodes)
qed

lemma addConnection_links:
  "fst (snd (addConnection e (nodes, lks, d) c)) =
     lks @ (if isIp (fst (addConnection e (nodes, lks, d) c)) (source c)
            then [(source c, portNodeId (port c))] else [])
         @ (if isIp (fst (addConnection e (nodes, lks, d) c)) (target c)
            then [(portNodeId (port c), target c)] else [])"
  by (simp add: addConnection_def Let_def)

lemma processAdded_Nil: "processAdded e [] st = st"
  by (simp add: processAdded_def)

lemma processAdded_Cons: "processAdded e (c # cs) st = processAdded e cs (addConnection e st c)"
  by (simp add: processAdded_def)

lemma processAdded_preserve:
  "nodes k = Some v \<Longrightarrow> fst (processAdded e cs (nodes, lks, d)) k = Some v"
proof (induction cs arbitrary: nodes lks d)
  case Nil
  then show ?case by (simp add: processAdded_Nil)
next
  case (Cons c cs)
  obtain n1 l1 d1 where a: "addConnection e (nodes, lks, d) c = (n1, l1, d1)"
    by (cases "addConnection e (nodes, lks, d) c")
  have "fst (addConnection e (nodes, lks, d) c) k = Some v"
    by (rule addConnection_preserve) (rule Cons.prems)
  with a have "n1 k = Some v" by simp
  then have "fst (processAdded e cs (n1, l1, d1)) k = Some v" by (rule Cons.IH)
  with a show ?case by (simp add: processAdded_Cons)
qed

lemma processAdded_new:
  "fst (processAdded e cs (nodes, lks, d)) k = Some v \<Longrightarrow>
     nodes k = Some v \<or>
     (nodes k = None \<and> (\<exists>c \<in> set cs. k = source c \<or> k = target c) \<and> node_type v = Ip
        \<and> node_fx v = Undefined \<and> node_fy v = Undefined)"
proof (induction cs arbitrary: nodes lks d)
  case Nil
  then show ?case by (simp add: processAdded_Nil)
next
  case (Cons c cs)
  obtain n1 l1 d1 where a: "addConnection e (nodes, lks, d) c = (n1, l1, d1)"
    by (cases "addConnection e (nodes, lks, d) c")
  from Cons.prems a have "fst (processAdded e cs (n1, l1, d1)) k = Some v"
    by (simp add: processAdded_Cons)
  from Cons.IH[OF this] show ?case
  proof
    assume "n1 k = Some v"
    with a have "fst (addConnection e (nodes, lks, d) c) k = Some v" by simp
    from addConnection_new[OF this] show ?thesis by auto
  next
    assume b: "n1 k = None \<and> (\<exists>c \<in> set cs. k = source c \<or> k = target c) \<and> node_type v = Ip
        \<and> node_fx v = Undefined \<and> node_fy v = Undefined"
    have "nodes k = None"
    proof (rule ccontr)
      assume "nodes k \<noteq> None"
      then obtain u where "nodes k = Some u" by blast
      then have "fst (addConnection e (nodes, lks, d) c) k = Some u"
        by (rule addConnection_preserve)
      with a b show False by simp
    qed
    with b show ?thesis by auto
  qed
qed

lemma processAdded_links:
  "\<exists>ext. fst (snd (processAdded e cs (nodes, lks, d))) = lks @ ext \<and>
     (\<forall>l \<in> set ext. \<exists>c \<in> set cs.
        (l = (source c, portNodeId (port c)) \<and> isIp (fst (processAdded e cs (nodes, lks, d))) (source c))
      \<or> (l = (portNodeId (port c), target c) \<and> isIp (fst (processAdded e cs (nodes, lks, d))) (target c)))"
proof (induction cs arbitrary: nodes lks d)
  case Nil
  show ?case by (simp add: processAdded_Nil)
next
  case (Cons c cs)
  obtain n1 l1 d1 where a: "addConnection e (nodes, lks, d) c = (n1, l1, d1)"
    by (cases "addConnection e (nodes, lks, d) c")
  let ?fin = "fst (processAdded e cs (n1, l1, d1))"
  from Cons.IH[of n1 l1 d1] obtain ext where
    ext: "fst (snd (processAdded e cs (n1, l1, d1))) = l1 @ ext"
    and extP: "\<forall>l \<in> set ext. \<exists>c \<in> set cs.
        (l = (source c, portNodeId (port c)) \<and> isIp ?fin (source c))
      \<or> (l = (portNodeId (port c), target c) \<and> isIp ?fin (target c))"
    by blast
  let ?e1 = "(if isIp n1 (source c) then [(source c, portNodeId (port c))] else [])
         @ (if isIp n1 (target c) then [(portNodeId (port c), target c)] else [])"
  from addConnection_links[of e nodes lks d c] a have l1: "l1 = lks @ ?e1" by simp
  from addConnection_present[of e nodes lks d c] a
  obtain us ut where us: "n1 (source c) = Some us" and ut: "n1 (target c) = Some ut" by auto
  have fs: "?fin (source c) = Some us" by (rule processAdded_preserve) (rule us)
  have ft: "?fin (target c) = Some ut" by (rule processAdded_preserve) (rule ut)
  have isS: "isIp ?fin (source c) = isIp n1 (source c)" using us fs by (simp add: isIp_def)
  have isT: "isIp ?fin (target c) = isIp n1 (target c)" using ut ft by (simp add: isIp_def)
  have fin: "processAdded e (c # cs) (nodes, lks, d) = processAdded e cs (n1, l1, d1)"
    using a by (simp add: processAdded_Cons)
  have "fst (snd (processAdded e (c # cs) (nodes, lks, d))) = lks @ (?e1 @ ext)"
    using ext l1 fin by simp
  moreover have "\<forall>l \<in> set (?e1 @ ext). \<exists>c' \<in> set (c # cs).
        (l = (source c', portNodeId (port c')) \<and> isIp ?fin (source c'))
      \<or> (l = (portNodeId (port c'), target c') \<and> isIp ?fin (target c'))"
    using extP isS isT by (auto split: if_splits)
  ultimately show ?case unfolding fin by blast
qed

subsection \<open>Removing edges\<close>

lemma processRemoved_filter:
  "processRemoved removed lks =
     filter (\<lambda>l. \<forall>c \<in> set removed. linkKey l \<noteq> source c @ ''->'' @ portNodeId (port c)
               \<and> linkKey l \<noteq> portNodeId (port c) @ ''->'' @ target c) lks"
proof (induction removed arbitrary: lks)
  case Nil
  show ?case by (simp add: processRemoved_def)
next
  case (Cons c cs)
  have "processRemoved (c # cs) lks = processRemoved cs (removeConnection lks c)"
    by (simp add: processRemoved_def)
  also have "\<dots> = filter (\<lambda>l. \<forall>c \<in> set cs. linkKey l \<noteq> source c @ ''->'' @ portNodeId (port c)
               \<and> linkKey l \<noteq> portNodeId (port c) @ ''->'' @ target c) (removeConnection lks c)"
    by (rule Cons.IH)
  also have "\<dots> = filter (\<lambda>l. \<forall>c \<in> set (c # cs). linkKey l \<noteq> source c @ ''->'' @ portNodeId (port c)
               \<and> linkKey l \<noteq> portNodeId (port c) @ ''->'' @ target c) lks"
    unfolding removeConnection_def filter_filter by (rule filter_cong) auto
  finally show ?case .
qed

lemma processRemoved_Nil: "processRemoved [] lks = lks"
  by (simp add: processRemoved_def)

subsection \<open>Hub edges\<close>

lemma ensureHubLinks_Nil: "ensureHubLinks hub [] lks = lks"
  by (simp add: ensureHubLinks_def)

lemma ensureHubLinks_Cons:
  "ensureHubLinks hub (p # ps) lks = ensureHubLinks hub ps (ensureHubLink hub lks p)"
  by (simp add: ensureHubLinks_def)

lemma ensureHubLinks_ext:
  "\<exists>ext. ensureHubLinks hub ps lks = lks @ ext \<and> set ext \<subseteq> (\<lambda>p. (hub, portNodeId p)) ` set ps"
proof (induction ps arbitrary: lks)
  case Nil
  show ?case by (simp add: ensureHubLinks_Nil)
next
  case (Cons p ps)
  from Cons[of "ensureHubLink hub lks p"] obtain ext where
    ext: "ensureHubLinks hub ps (ensureHubLink hub lks p) = ensureHubLink hub lks p @ ext"
    and sub: "set ext \<subseteq> (\<lambda>p. (hub, portNodeId p)) ` set ps" by blast
  show ?case
  proof (cases "hub @ ''->'' @ portNodeId p \<in> set (map linkKey lks)")
    case True
    with ext sub show ?thesis by (auto simp: ensureHubLinks_Cons ensureHubLink_def)
  next
    case False
    then have "ensureHubLinks hub (p # ps) lks = lks @ ((hub, portNodeId p) # ext)"
      using ext by (simp add: ensureHubLinks_Cons ensureHubLink_def)
    moreover have "set ((hub, portNodeId p) # ext) \<subseteq> (\<lambda>p. (hub, portNodeId p)) ` set (p # ps)"
      using sub by auto
    ultimately show ?thesis by blast
  qed
qed

lemma ensureHubLinks_keeps:
  "k \<in> set (map linkKey lks) \<Longrightarrow> k \<in> set (map linkKey (ensureHubLinks hub ps lks))"
  using ensureHubLinks_ext[of hub ps lks] by auto

lemma ensureHubLinks_present:
  "p \<in> set ps \<Longrightarrow> hub @ ''->'' @ portNodeId p \<in> set (map linkKey (ensureHubLinks hub ps lks))"
proof (induction ps arbitrary: lks)
  case Nil
  then show ?case by simp
next
  case (Cons q ps)
  show ?case
  proof (cases "p = q")
    case True
    have "hub @ ''->'' @ portNodeId p \<in> set (map linkKey (ensureHubLink hub lks p))"
      by (auto simp: ensureHubLink_def linkKey_def)
    from ensureHubLinks_keeps[OF this] True show ?thesis by (simp add: ensureHubLinks_Cons)
  next
    case False
    with Cons.prems have "p \<in> set ps" by simp
    from Cons.IH[OF this] show ?thesis by (simp add: ensureHubLinks_Cons)
  qed
qed

lemma ensureHubLinks_id:
  "(\<And>p. p \<in> set ps \<Longrightarrow> hub @ ''->'' @ portNodeId p \<in> set (map linkKey lks)) \<Longrightarrow>
     ensureHubLinks hub ps lks = lks"
proof (induction ps)
  case Nil
  show ?case by (simp add: ensureHubLinks_Nil)
next
  case (Cons p ps)
  from Cons.prems[of p] have "ensureHubLink hub lks p = lks" by (simp add: ensureHubLink_def)
  moreover have "ensureHubLinks hub ps lks = lks" by (rule Cons.IH) (use Cons.prems in auto)
  ultimately show ?case by (simp add: ensureHubLinks_Cons)
qed

subsection \<open>Pruning\<close>

lemma pruneNodes_hub: "pruneNodes hub lks nodes hub = nodes hub"
  by (simp add: pruneNodes_def usedNodeIds_def)

lemma pruneNodes_Some: "pruneNodes hub lks nodes k = Some v \<Longrightarrow> nodes k = Some v"
  by (simp add: pruneNodes_def split: if_splits)

lemma pruneNodes_used: "k \<in> usedNodeIds hub lks \<Longrightarrow> pruneNodes hub lks nodes k = nodes k"
  by (simp add: pruneNodes_def)

lemma pruneNodes_unused: "k \<notin> usedNodeIds hub lks \<Longrightarrow> pruneNodes hub lks nodes k = None"
  by (simp add: pruneNodes_def)


lemma addedConnections_same: "addedConnections cs cs = []"
  by (simp add: addedConnections_def)

lemma removedConnections_same: "removedConnections cs cs = []"
  by (simp add: removedConnections_def)

lemma truthyAt_own: "k \<notin> set objectMembers \<Longrightarrow> truthyAt nodes k \<longleftrightarrow> nodes k \<noteq> None"
  by (simp add: truthyAt_def)

lemma ensureHub_lookup:
  "hub \<notin> set objectMembers \<Longrightarrow>
     ensureHub hub w h nodes = (if \<not> truthyAt nodes hub then nodes(hub \<mapsto> hubNode hub w h) else nodes)"
  by (simp add: ensureHub_def truthyAt_own)

lemma ensureHub_present: "ensureHub hub w h nodes hub \<noteq> None"
  by (auto simp: ensureHub_def)

lemma ensureHub_id: "nodes hub \<noteq> None \<Longrightarrow> ensureHub hub w h nodes = nodes"
  by (auto simp: ensureHub_def)

lemma ensureHub_preserve: "nodes k = Some v \<Longrightarrow> ensureHub hub w h nodes k = Some v"
  by (auto simp: ensureHub_def)

text \<open>The pieces of one cycle, named.\<close>

lemma deltaUpdate_prev: "prevConnections (deltaUpdate e w h cs s) = filterLoopback cs"
  by (simp add: deltaUpdate_def Let_def)

lemma deltaUpdate_links:
  "links (deltaUpdate e w h cs s) =
     ensureHubLinks (hubId e) (uniq (map port (filterLoopback cs)))
       (processRemoved (removedConnections (prevConnections s) (filterLoopback cs))
          (fst (snd (processAdded e (addedConnections (prevConnections s) (filterLoopback cs))
             (placePorts w h (uniq (map port (filterLoopback cs)))
                (ensureHub (hubId e) w h (nodesMap s)), links s, draws s)))))"
  by (simp add: deltaUpdate_def Let_def)

lemma deltaUpdate_nodes:
  "nodesMap (deltaUpdate e w h cs s) =
     pruneNodes (hubId e) (links (deltaUpdate e w h cs s))
       (fst (processAdded e (addedConnections (prevConnections s) (filterLoopback cs))
             (placePorts w h (uniq (map port (filterLoopback cs)))
                (ensureHub (hubId e) w h (nodesMap s)), links s, draws s)))"
  by (simp add: deltaUpdate_def Let_def)

lemma deltaUpdate_same_prev:
  assumes "prevConnections s = filterLoopback cs"
  shows "deltaUpdate e w h cs s =
     s\<lparr>nodesMap := pruneNodes (hubId e)
            (ensureHubLinks (hubId e) (uniq (map port (filterLoopback cs))) (links s))
            (placePorts w h (uniq (map port (filterLoopback cs)))
                (ensureHub (hubId e) w h (nodesMap s))),
       links := ensureHubLinks (hubId e) (uniq (map port (filterLoopback cs))) (links s),
       prevConnections := filterLoopback cs,
       draws := draws s\<rparr>"
  by (simp add: deltaUpdate_def Let_def assms addedConnections_same removedConnections_same
      processAdded_Nil processRemoved_Nil)

lemma deltaUpdate_hub_present: "nodesMap (deltaUpdate e w h cs s) (hubId e) \<noteq> None"
proof -
  obtain v where "ensureHub (hubId e) w h (nodesMap s) (hubId e) = Some v"
    using ensureHub_present[of "hubId e" w h "nodesMap s"] by blast
  then have "placePorts w h (uniq (map port (filterLoopback cs)))
                (ensureHub (hubId e) w h (nodesMap s)) (hubId e) = Some v"
    by (rule placePorts_preserve)
  then have "fst (processAdded e (addedConnections (prevConnections s) (filterLoopback cs))
             (placePorts w h (uniq (map port (filterLoopback cs)))
                (ensureHub (hubId e) w h (nodesMap s)), links s, draws s)) (hubId e) = Some v"
    by (rule processAdded_preserve)
  then show ?thesis by (simp add: deltaUpdate_nodes pruneNodes_hub)
qed

lemma deltaUpdate_hubkeys:
  assumes "p \<in> set (uniq (map port (filterLoopback cs)))"
  shows "hubId e @ ''->'' @ portNodeId p \<in> set (map linkKey (links (deltaUpdate e w h cs s)))"
  unfolding deltaUpdate_links by (rule ensureHubLinks_present) (rule assms)

lemma deltaUpdate_port_kept:
  assumes "p \<in> set (uniq (map port (filterLoopback cs)))"
    and "portNodeId p \<in> usedNodeIds (hubId e) (links (deltaUpdate e w h cs s))"
  shows "nodesMap (deltaUpdate e w h cs s) (portNodeId p) \<noteq> None"
proof -
  obtain v where "placePorts w h (uniq (map port (filterLoopback cs)))
                (ensureHub (hubId e) w h (nodesMap s)) (portNodeId p) = Some v"
    using placePorts_present[OF assms(1)] by blast
  then have "fst (processAdded e (addedConnections (prevConnections s) (filterLoopback cs))
             (placePorts w h (uniq (map port (filterLoopback cs)))
                (ensureHub (hubId e) w h (nodesMap s)), links s, draws s)) (portNodeId p) = Some v"
    by (rule processAdded_preserve)
  with assms(2) show ?thesis by (simp add: deltaUpdate_nodes pruneNodes_used)
qed

lemma deltaUpdate_dom_used:
  "nodesMap (deltaUpdate e w h cs s) k = Some v \<Longrightarrow>
     k \<in> usedNodeIds (hubId e) (links (deltaUpdate e w h cs s))"
  by (simp add: deltaUpdate_nodes pruneNodes_def split: if_splits)


section \<open>Scenarios A and B evaluated\<close>


lemma pid443: "portNodeId 443 = ''port-443''"
  by (simp add: portNodeId_def string_of_nat.simps digit_def)

lemma key443: "string_of_nat 443 = ''443''"
  by (simp add: string_of_nat.simps digit_def)

lemmas cycle_defs = deltaUpdate_def Let_def initial_def demoEnv_def mkConn_def filterLoopback_def addedConnections_def removedConnections_def uniq_def placePorts_def placePort_def ensureHub_def processAdded_def addConnection_def ensureIp_def placeIpNearPort_def isIp_def processRemoved_def removeConnection_def ensureHubLinks_def ensureHubLink_def pid443 key443 linkKey_def connectionKey_def enumerate_eq_zip pruneNodes_def usedNodeIds_def ipNode_def

lemma scenarioA_links:
  "links (scenarioA w h) =
     [(''10.0.0.2'', ''port-443''), (''port-443'', ''8.8.8.8''), (''192.168.2.1'', ''port-443'')]"
  by (simp add: scenarioA_def cycle_defs)

lemma scenarioA_prev:
  "prevConnections (scenarioA w h) = [mkConn ''10.0.0.2'' ''8.8.8.8'' 443]"
  by (simp add: scenarioA_def deltaUpdate_prev filterLoopback_def mkConn_def)

lemma scenarioA_hub: "nodesMap (scenarioA w h) ''192.168.2.1'' = Some (hubNode ''192.168.2.1'' w h)"
  by (simp add: scenarioA_def cycle_defs)

lemma scenarioA_port: "nodesMap (scenarioA w h) ''port-443'' = Some (portNode w h 0 443)"
  by (simp add: scenarioA_def cycle_defs)

lemma scenarioA_src: "\<exists>n. nodesMap (scenarioA w h) ''10.0.0.2'' = Some n \<and> node_type n = Ip"
  by (simp add: scenarioA_def cycle_defs)

lemma scenarioA_tgt: "\<exists>n. nodesMap (scenarioA w h) ''8.8.8.8'' = Some n \<and> node_type n = Ip"
  by (simp add: scenarioA_def cycle_defs)

lemma scenarioA_dom:
  "dom (nodesMap (scenarioA w h)) = {''192.168.2.1'', ''port-443'', ''10.0.0.2'', ''8.8.8.8''}"
proof -
  have "dom (nodesMap (scenarioA w h)) \<subseteq> usedNodeIds ''192.168.2.1'' (links (scenarioA w h))"
    using deltaUpdate_dom_used[of demoEnv w h _ "initial None"]
    by (auto simp: scenarioA_def demoEnv_def)
  then have "dom (nodesMap (scenarioA w h)) \<subseteq> {''192.168.2.1'', ''port-443'', ''10.0.0.2'', ''8.8.8.8''}"
    by (auto simp: scenarioA_links usedNodeIds_def)
  moreover have "{''192.168.2.1'', ''port-443'', ''10.0.0.2'', ''8.8.8.8''} \<subseteq> dom (nodesMap (scenarioA w h))"
    using scenarioA_hub[of w h] scenarioA_port[of w h] scenarioA_src[of w h] scenarioA_tgt[of w h]
    by auto
  ultimately show ?thesis by blast
qed

lemma scenarioB_links: "links (scenarioB w h w' h') = [(''192.168.2.1'', ''port-443'')]"
  by (simp add: scenarioB_def deltaUpdate_links scenarioA_links scenarioA_prev
      filterLoopback_def addedConnections_def removedConnections_def uniq_def mkConn_def
      connectionKey_def processAdded_def processRemoved_def removeConnection_def linkKey_def
      ensureHubLinks_def pid443)

lemma scenarioB_nodes:
  "nodesMap (scenarioB w h w' h') =
     (\<lambda>nid. if nid \<in> {''192.168.2.1'', ''port-443''} then nodesMap (scenarioA w h) nid else None)"
proof -
  have "ensureHub ''192.168.2.1'' w' h' (nodesMap (scenarioA w h)) = nodesMap (scenarioA w h)"
    by (rule ensureHub_id) (simp add: scenarioA_hub)
  then show ?thesis
    unfolding scenarioB_def deltaUpdate_nodes
    unfolding scenarioB_def[symmetric] scenarioB_links
    by (auto simp: demoEnv_def filterLoopback_def addedConnections_def uniq_def placePorts_def
        processAdded_def pruneNodes_def usedNodeIds_def)
qed


section \<open>Lemmas about whole cycles\<close>


lemma restoreNodePositions_dom: "dom (nodesMap (restoreNodePositions s)) = dom (nodesMap s)"
  by (auto simp: restoreNodePositions_def dom_def split: option.splits)

lemma restoreNodePositions_links: "links (restoreNodePositions s) = links s"
  by (simp add: restoreNodePositions_def split: option.splits)

lemma deltaUpdate_p1_empty:
  "links (deltaUpdate_p1 e w h [] s) = [] \<and> dom (nodesMap (deltaUpdate_p1 e w h [] s)) = {hubId e}"
proof -
  define s1 where "s1 = syncNodesAndLinks (hubId e) []
     (s\<lparr>nodesMap := ensureHub (hubId e) w h (nodesMap s), draws := draws s\<rparr>)"
  have l: "links s1 = []" by (simp add: s1_def syncNodesAndLinks_def)
  have "nodesMap s1 = (\<lambda>k. if k = hubId e then ensureHub (hubId e) w h (nodesMap s) k else None)"
    by (simp add: s1_def syncNodesAndLinks_def pruneNodes_def usedNodeIds_def)
  then have d: "dom (nodesMap s1) = {hubId e}"
    using ensureHub_present[of "hubId e" w h "nodesMap s"] by (auto simp: dom_def)
  have "deltaUpdate_p1 e w h [] s =
      (if \<not> positionsRestored s1 then (restoreNodePositions s1)\<lparr>positionsRestored := True\<rparr> else s1)"
    by (simp add: deltaUpdate_p1_def s1_def filterLoopback_def uniq_def placePorts_def
        processAdded_def Let_def)
  with l d show ?thesis
    by (simp add: restoreNodePositions_dom restoreNodePositions_links)
qed

subsection \<open>The hub across cycles\<close>

lemma deltaUpdate_hub_kept:
  assumes "nodesMap s (hubId e) = Some v"
  shows "nodesMap (deltaUpdate e w h cs s) (hubId e) = Some v"
proof -
  have "ensureHub (hubId e) w h (nodesMap s) (hubId e) = Some v"
    by (rule ensureHub_preserve) (rule assms)
  then have "placePorts w h (uniq (map port (filterLoopback cs)))
                (ensureHub (hubId e) w h (nodesMap s)) (hubId e) = Some v"
    by (rule placePorts_preserve)
  then have "fst (processAdded e (addedConnections (prevConnections s) (filterLoopback cs))
             (placePorts w h (uniq (map port (filterLoopback cs)))
                (ensureHub (hubId e) w h (nodesMap s)), links s, draws s)) (hubId e) = Some v"
    by (rule processAdded_preserve)
  then show ?thesis by (simp add: deltaUpdate_nodes pruneNodes_hub)
qed

lemma deltaUpdate_hub_created:
  assumes "nodesMap s (hubId e) = None"
  shows "nodesMap (deltaUpdate e w h cs s) (hubId e) = Some (hubNode (hubId e) w h)"
proof -
  have "ensureHub (hubId e) w h (nodesMap s) (hubId e) = Some (hubNode (hubId e) w h)"
    using assms by (simp add: ensureHub_def)
  then have "placePorts w h (uniq (map port (filterLoopback cs)))
                (ensureHub (hubId e) w h (nodesMap s)) (hubId e) = Some (hubNode (hubId e) w h)"
    by (rule placePorts_preserve)
  then have "fst (processAdded e (addedConnections (prevConnections s) (filterLoopback cs))
             (placePorts w h (uniq (map port (filterLoopback cs)))
                (ensureHub (hubId e) w h (nodesMap s)), links s, draws s)) (hubId e)
       = Some (hubNode (hubId e) w h)"
    by (rule processAdded_preserve)
  then show ?thesis by (simp add: deltaUpdate_nodes pruneNodes_hub)
qed

text \<open>Where a node of the map after a cycle comes from.\<close>

lemma deltaUpdate_node_origin:
  assumes "nodesMap (deltaUpdate e w h cs s) k = Some v"
  shows "nodesMap s k = Some v
     \<or> (nodesMap s k = None \<and> k = hubId e \<and> v = hubNode (hubId e) w h)
     \<or> (nodesMap s k = None \<and> (\<exists>i. i < length (uniq (map port (filterLoopback cs)))
            \<and> k = portNodeId (uniq (map port (filterLoopback cs)) ! i)
            \<and> v = portNode w h i (uniq (map port (filterLoopback cs)) ! i)))
     \<or> (nodesMap s k = None \<and> node_type v = Ip \<and> node_fx v = Undefined \<and> node_fy v = Undefined
           \<and> (\<exists>c \<in> set (filterLoopback cs). k = source c \<or> k = target c))"
proof -
  let ?U = "uniq (map port (filterLoopback cs))"
  let ?n0 = "ensureHub (hubId e) w h (nodesMap s)"
  let ?n1 = "placePorts w h ?U ?n0"
  let ?add = "addedConnections (prevConnections s) (filterLoopback cs)"
  from assms have "fst (processAdded e ?add (?n1, links s, draws s)) k = Some v"
    by (simp add: deltaUpdate_nodes pruneNodes_def split: if_splits)
  from processAdded_new[OF this]
  consider (old) "?n1 k = Some v"
    | (ip) "?n1 k = None" "node_type v = Ip" "node_fx v = Undefined" "node_fy v = Undefined"
        "\<exists>c \<in> set ?add. k = source c \<or> k = target c"
    by auto
  then show ?thesis
  proof cases
    case ip
    have "nodesMap s k = None"
    proof (rule ccontr)
      assume "nodesMap s k \<noteq> None"
      then obtain u where "nodesMap s k = Some u" by blast
      then have "?n0 k = Some u" by (rule ensureHub_preserve)
      then have "?n1 k = Some u" by (rule placePorts_preserve)
      with ip(1) show False by simp
    qed
    moreover from ip(5) have "\<exists>c \<in> set (filterLoopback cs). k = source c \<or> k = target c"
      by (auto simp: addedConnections_def)
    ultimately show ?thesis using ip by blast
  next
    case old
    from placePorts_new[OF old]
    consider (older) "?n0 k = Some v"
      | (port) "\<exists>i. i < length ?U \<and> k = portNodeId (?U ! i) \<and> v = portNode w h i (?U ! i)"
      by auto
    then show ?thesis
    proof cases
      case older
      then show ?thesis by (cases "nodesMap s k") (auto simp: ensureHub_def split: if_splits)
    next
      case port
      show ?thesis
      proof (cases "nodesMap s k")
        case None
        with port show ?thesis by blast
      next
        case (Some u)
        then have "?n0 k = Some u" by (rule ensureHub_preserve)
        then have "?n1 k = Some u" by (rule placePorts_preserve)
        with old Some show ?thesis by simp
      qed
    qed
  qed
qed

lemma deltaUpdate_hub_only:
  assumes "\<And>k v. nodesMap s k = Some v \<Longrightarrow> node_type v = Hub \<Longrightarrow> k = hubId e"
    and "nodesMap (deltaUpdate e w h cs s) k = Some v" and "node_type v = Hub"
  shows "k = hubId e"
proof -
  have "node_type (portNode w h i p) \<noteq> Hub" for i p by (simp add: portNode_def)
  with deltaUpdate_node_origin[OF assms(2)] assms(1)[of k v] assms(3)
  show ?thesis by fastforce
qed

lemma hubInvI:
  assumes "nodesMap s (hubId e) = Some (hubNode (hubId e) w h)"
    and "\<And>k v. nodesMap s k = Some v \<Longrightarrow> node_type v = Hub \<Longrightarrow> k = hubId e"
  shows "hubInv e w h s"
proof -
  have "{k. \<exists>n. nodesMap s k = Some n \<and> node_type n = Hub} = {hubId e}"
  proof (rule equalityI; rule subsetI)
    fix k assume "k \<in> {k. \<exists>n. nodesMap s k = Some n \<and> node_type n = Hub}"
    then obtain n where "nodesMap s k = Some n" "node_type n = Hub" by blast
    then have "k = hubId e" by (rule assms(2))
    then show "k \<in> {hubId e}" by simp
  next
    fix k assume "k \<in> {hubId e}"
    then have "k = hubId e" by simp
    moreover have "node_type (hubNode (hubId e) w h) = Hub" by (simp add: hubNode_def)
    ultimately show "k \<in> {k. \<exists>n. nodesMap s k = Some n \<and> node_type n = Hub}"
      using assms(1) by blast
  qed
  with assms(1) show ?thesis by (simp add: hubInv_def)
qed

lemma hubInv_step: "hubInv e w0 h0 s \<Longrightarrow> hubInv e w0 h0 (deltaUpdate e w h cs s)"
proof -
  assume inv: "hubInv e w0 h0 s"
  then have hub: "nodesMap s (hubId e) = Some (hubNode (hubId e) w0 h0)"
    and only: "\<And>k v. nodesMap s k = Some v \<Longrightarrow> node_type v = Hub \<Longrightarrow> k = hubId e"
    by (simp add: hubInv_def, unfold hubInv_def, blast)
  have 1: "nodesMap (deltaUpdate e w h cs s) (hubId e) = Some (hubNode (hubId e) w0 h0)"
    by (rule deltaUpdate_hub_kept) (rule hub)
  have 2: "\<And>k v. nodesMap (deltaUpdate e w h cs s) k = Some v \<Longrightarrow> node_type v = Hub \<Longrightarrow> k = hubId e"
    by (rule deltaUpdate_hub_only[where s = s]) (use only in auto)
  show ?thesis by (rule hubInvI) (fact 1, fact 2)
qed

lemma hubInv_first: "hubInv e w h (deltaUpdate e w h cs (initial st))"
proof -
  have 1: "nodesMap (deltaUpdate e w h cs (initial st)) (hubId e) = Some (hubNode (hubId e) w h)"
    by (rule deltaUpdate_hub_created) (simp add: initial_def)
  have 2: "\<And>k v. nodesMap (deltaUpdate e w h cs (initial st)) k = Some v \<Longrightarrow> node_type v = Hub \<Longrightarrow> k = hubId e"
    by (rule deltaUpdate_hub_only[where s = "initial st"]) (auto simp: initial_def)
  show ?thesis by (rule hubInvI) (fact 1, fact 2)
qed

lemma hubInv_run: "hubInv e w0 h0 s \<Longrightarrow> hubInv e w0 h0 (runCycles e cys s)"
proof (induction cys arbitrary: s)
  case Nil
  then show ?case by (simp add: runCycles_def)
next
  case (Cons cy cys)
  obtain w h cs where cy: "cy = (w, h, cs)" by (cases cy)
  from Cons.prems have "hubInv e w0 h0 (deltaUpdate e w h cs s)" by (rule hubInv_step)
  then have "hubInv e w0 h0 (runCycles e cys (deltaUpdate e w h cs s))" by (rule Cons.IH)
  then show ?case by (simp add: runCycles_def runCycle_def cy)
qed


subsection \<open>Port nodes across a cycle\<close>


lemma deltaUpdate_port_used:
  assumes "CHR ''>'' \<notin> set (hubId e)" and "p \<in> set (uniq (map port (filterLoopback cs)))"
  shows "(hubId e, portNodeId p) \<in> set (links (deltaUpdate e w h cs s))"
    and "portNodeId p \<in> usedNodeIds (hubId e) (links (deltaUpdate e w h cs s))"
proof -
  from deltaUpdate_hubkeys[OF assms(2), of e w h s]
  obtain l where l: "l \<in> set (links (deltaUpdate e w h cs s))"
    and k: "linkKey l = hubId e @ ''->'' @ portNodeId p" by auto
  from linkKey_eq_hub[OF assms(1) k] l
  show 1: "(hubId e, portNodeId p) \<in> set (links (deltaUpdate e w h cs s))" by simp
  then show "portNodeId p \<in> usedNodeIds (hubId e) (links (deltaUpdate e w h cs s))"
    by (force simp: usedNodeIds_def)
qed

lemma deltaUpdate_port_created:
  assumes "CHR ''>'' \<notin> set (hubId e)"
    and "i < length (uniq (map port (filterLoopback cs)))"
    and "nodesMap s (portNodeId (uniq (map port (filterLoopback cs)) ! i)) = None"
    and "hubId e \<noteq> portNodeId (uniq (map port (filterLoopback cs)) ! i)"
  shows "nodesMap (deltaUpdate e w h cs s) (portNodeId (uniq (map port (filterLoopback cs)) ! i))
     = Some (portNode w h i (uniq (map port (filterLoopback cs)) ! i))"
proof -
  let ?U = "uniq (map port (filterLoopback cs))"
  let ?n0 = "ensureHub (hubId e) w h (nodesMap s)"
  let ?n1 = "placePorts w h ?U ?n0"
  let ?add = "addedConnections (prevConnections s) (filterLoopback cs)"
  have "?n0 (portNodeId (?U ! i)) = None"
    using assms(3,4) by (simp add: ensureHub_def)
  with distinct_uniq[of "map port (filterLoopback cs)"] assms(2)
  have "?n1 (portNodeId (?U ! i)) = Some (portNode w h i (?U ! i))"
    by (rule placePorts_created)
  then have "fst (processAdded e ?add (?n1, links s, draws s)) (portNodeId (?U ! i))
      = Some (portNode w h i (?U ! i))"
    by (rule processAdded_preserve)
  moreover have "portNodeId (?U ! i) \<in> usedNodeIds (hubId e) (links (deltaUpdate e w h cs s))"
    by (rule deltaUpdate_port_used(2)) (use assms(1,2) in simp_all)
  ultimately show ?thesis by (simp add: deltaUpdate_nodes pruneNodes_used)
qed

lemma deltaUpdate_port_existing:
  assumes "CHR ''>'' \<notin> set (hubId e)"
    and "p \<in> set (uniq (map port (filterLoopback cs)))"
    and "nodesMap s (portNodeId p) = Some n"
  shows "nodesMap (deltaUpdate e w h cs s) (portNodeId p) = Some n"
proof -
  let ?U = "uniq (map port (filterLoopback cs))"
  let ?n0 = "ensureHub (hubId e) w h (nodesMap s)"
  let ?n1 = "placePorts w h ?U ?n0"
  let ?add = "addedConnections (prevConnections s) (filterLoopback cs)"
  have "?n0 (portNodeId p) = Some n" by (rule ensureHub_preserve) (rule assms(3))
  then have "?n1 (portNodeId p) = Some n" by (rule placePorts_preserve)
  then have "fst (processAdded e ?add (?n1, links s, draws s)) (portNodeId p) = Some n"
    by (rule processAdded_preserve)
  moreover have "portNodeId p \<in> usedNodeIds (hubId e) (links (deltaUpdate e w h cs s))"
    by (rule deltaUpdate_port_used(2)) (use assms(1,2) in simp_all)
  ultimately show ?thesis by (simp add: deltaUpdate_nodes pruneNodes_used)
qed

lemma portNode_pin:
  "node_fx (portNode w h i p) = Num (w / 2 + cos (2 * pi / 8 * real (i mod 8))
       * ((min w h * 0.3 + real (i div 8) * 150) * (if even (i mod 8) then 1 else 0.5)))"
  "node_fy (portNode w h i p) = Num (h / 2 + sin (2 * pi / 8 * real (i mod 8))
       * ((min w h * 0.3 + real (i div 8) * 150) * (if even (i mod 8) then 1 else 0.5)))"
  by (simp_all add: portNode_def starAngle_def starRadius_def Let_def even_iff_mod_2_eq_zero)

lemma demo_ports: "uniq (map port (filterLoopback [mkConn ''10.0.0.2'' ''8.8.8.8'' 443])) = [443]"
  by (simp add: uniq_def filterLoopback_def mkConn_def)

lemma demo_hub_no_gt: "CHR ''>'' \<notin> set (hubId demoEnv)"
  by (simp add: demoEnv_def)

lemma demo_hub_not_port: "hubId demoEnv \<noteq> portNodeId 443"
  by (simp add: demoEnv_def pid443)

lemma resized_hub: "nodesMap resized ''192.168.2.1'' = Some (hubNode ''192.168.2.1'' 800 600)"
proof -
  have "nodesMap (deltaUpdate demoEnv 800 600 [] (initial None)) (hubId demoEnv)
      = Some (hubNode (hubId demoEnv) 800 600)"
    by (rule deltaUpdate_hub_created) (simp add: initial_def)
  then have "nodesMap resized (hubId demoEnv) = Some (hubNode (hubId demoEnv) 800 600)"
    unfolding resized_def by (rule deltaUpdate_hub_kept)
  then show ?thesis by (simp add: demoEnv_def)
qed

lemma resized_port: "nodesMap resized ''port-443'' = Some (portNode 1000 800 0 443)"
proof -
  have i: "0 < length (uniq (map port (filterLoopback [mkConn ''10.0.0.2'' ''8.8.8.8'' 443])))"
    by (simp add: demo_ports)
  have "nodesMap (deltaUpdate demoEnv 800 600 [] (initial None)) ''port-443'' = None"
    by (simp add: cycle_defs)
  then have fresh: "nodesMap (deltaUpdate demoEnv 800 600 [] (initial None))
      (portNodeId (uniq (map port (filterLoopback [mkConn ''10.0.0.2'' ''8.8.8.8'' 443])) ! 0)) = None"
    by (simp add: demo_ports pid443)
  have np: "hubId demoEnv \<noteq> portNodeId (uniq (map port (filterLoopback [mkConn ''10.0.0.2'' ''8.8.8.8'' 443])) ! 0)"
    by (simp add: demo_ports demo_hub_not_port)
  from deltaUpdate_port_created[OF demo_hub_no_gt i fresh np, of 1000 800]
  show ?thesis by (simp add: resized_def demo_ports pid443)
qed


subsection \<open>Removed tuples\<close>


lemma linkKey_pair: "linkKey (a, b) = a @ ''->'' @ b"
  by (simp add: linkKey_def)

lemma processRemoved_gone:
  assumes "c \<in> set removed"
  shows "(source c, portNodeId (port c)) \<notin> set (processRemoved removed lks)"
    and "(portNodeId (port c), target c) \<notin> set (processRemoved removed lks)"
  using assms by (auto simp: processRemoved_filter linkKey_pair)

lemma deltaUpdate_links_split:
  "\<exists>ext. links (deltaUpdate e w h cs s) =
     processRemoved (removedConnections (prevConnections s) (filterLoopback cs))
          (fst (snd (processAdded e (addedConnections (prevConnections s) (filterLoopback cs))
             (placePorts w h (uniq (map port (filterLoopback cs)))
                (ensureHub (hubId e) w h (nodesMap s)), links s, draws s)))) @ ext
     \<and> set ext \<subseteq> (\<lambda>p. (hubId e, portNodeId p)) ` set (uniq (map port (filterLoopback cs)))"
  unfolding deltaUpdate_links by (rule ensureHubLinks_ext)

lemma removed_edge_in_final:
  assumes "c \<in> set (removedConnections (prevConnections s) (filterLoopback cs))"
    and "l \<in> set (links (deltaUpdate e w h cs s))"
    and "l = (source c, portNodeId (port c)) \<or> l = (portNodeId (port c), target c)"
  shows "l \<in> (\<lambda>p. (hubId e, portNodeId p)) ` set (map port (filterLoopback cs))"
proof -
  from deltaUpdate_links_split[of e w h cs s] obtain ext where
    eq: "links (deltaUpdate e w h cs s) =
     processRemoved (removedConnections (prevConnections s) (filterLoopback cs))
          (fst (snd (processAdded e (addedConnections (prevConnections s) (filterLoopback cs))
             (placePorts w h (uniq (map port (filterLoopback cs)))
                (ensureHub (hubId e) w h (nodesMap s)), links s, draws s)))) @ ext"
    and sub: "set ext \<subseteq> (\<lambda>p. (hubId e, portNodeId p)) ` set (uniq (map port (filterLoopback cs)))"
    by blast
  from assms(1,3) processRemoved_gone[OF assms(1)]
  have "l \<notin> set (processRemoved (removedConnections (prevConnections s) (filterLoopback cs))
          (fst (snd (processAdded e (addedConnections (prevConnections s) (filterLoopback cs))
             (placePorts w h (uniq (map port (filterLoopback cs)))
                (ensureHub (hubId e) w h (nodesMap s)), links s, draws s)))))"
    by blast
  with assms(2) eq have "l \<in> set ext" by simp
  with sub show ?thesis by (auto simp: set_uniq)
qed

lemma pid80: "portNodeId 80 = ''port-80''"
  by (simp add: portNodeId_def string_of_nat.simps digit_def)

lemma key80: "string_of_nat 80 = ''80''"
  by (simp add: string_of_nat.simps digit_def)

lemma twoSameSource_prev:
  "prevConnections twoSameSource
     = [mkConn ''10.0.0.2'' ''8.8.8.8'' 80, mkConn ''10.0.0.2'' ''1.1.1.1'' 80]"
  by (simp add: twoSameSource_def deltaUpdate_prev filterLoopback_def mkConn_def)

lemma twoSameSource_links:
  "links twoSameSource = [(''10.0.0.2'', ''port-80''), (''port-80'', ''8.8.8.8''),
     (''10.0.0.2'', ''port-80''), (''port-80'', ''1.1.1.1''), (''192.168.2.1'', ''port-80'')]"
  by (simp add: twoSameSource_def cycle_defs pid80 key80 hubNode_def portNode_def)

lemma twoSameSource_removed:
  "removedConnections (prevConnections twoSameSource)
      (filterLoopback [mkConn ''10.0.0.2'' ''1.1.1.1'' 80]) = [mkConn ''10.0.0.2'' ''8.8.8.8'' 80]"
  by (simp add: twoSameSource_prev removedConnections_def filterLoopback_def mkConn_def
      connectionKey_def key80)

lemma hubAsSource_prev:
  "prevConnections hubAsSource
     = [mkConn ''192.168.2.1'' ''8.8.8.8'' 80, mkConn ''10.0.0.2'' ''1.1.1.1'' 80]"
  by (simp add: hubAsSource_def deltaUpdate_prev filterLoopback_def mkConn_def)

lemma hubAsSource_links:
  "links hubAsSource = [(''port-80'', ''8.8.8.8''),
     (''10.0.0.2'', ''port-80''), (''port-80'', ''1.1.1.1''), (''192.168.2.1'', ''port-80'')]"
  by (simp add: hubAsSource_def cycle_defs pid80 key80 hubNode_def portNode_def)

lemma hubAsSource_removed:
  "removedConnections (prevConnections hubAsSource)
      (filterLoopback [mkConn ''10.0.0.2'' ''1.1.1.1'' 80]) = [mkConn ''192.168.2.1'' ''8.8.8.8'' 80]"
  by (simp add: hubAsSource_prev removedConnections_def filterLoopback_def mkConn_def
      connectionKey_def key80)

lemma hubAsSource_next_links:
  "links (deltaUpdate demoEnv 800 600 [mkConn ''10.0.0.2'' ''1.1.1.1'' 80] hubAsSource)
     = [(''10.0.0.2'', ''port-80''), (''port-80'', ''1.1.1.1''), (''192.168.2.1'', ''port-80'')]"
  unfolding deltaUpdate_links hubAsSource_removed
  by (simp add: hubAsSource_prev hubAsSource_links addedConnections_def filterLoopback_def
      mkConn_def connectionKey_def key80 pid80 processAdded_def processRemoved_def
      removeConnection_def linkKey_def uniq_def ensureHubLinks_def ensureHubLink_def demoEnv_def)


section \<open>Lemmas about persistence\<close>


lemma restoreField_case: "restoreField j old = (case j of JNum r \<Rightarrow> Num r | _ \<Rightarrow> old)"
  by (cases j) simp_all

lemma restoreField_toJson:
  "restoreField (toJson v) old = (case v of Num r \<Rightarrow> Num r | _ \<Rightarrow> old)"
  by (cases v) simp_all

lemma restoreNodePositions_at:
  assumes "storage s = Some saved" and "saved k = Some p" and "nodesMap s k = Some n"
  shows "nodesMap (restoreNodePositions s) k = Some (restoreNode p n)"
  using assms by (simp add: restoreNodePositions_def)

lemma restoreNodePositions_absent:
  assumes "storage s = Some saved" and "saved k = None"
  shows "nodesMap (restoreNodePositions s) k = nodesMap s k"
  using assms by (simp add: restoreNodePositions_def split: option.splits)

lemma saveNodePositions_storage:
  "storage (saveNodePositions True s) = Some (\<lambda>nid. map_option nodePosition (nodesMap s nid))"
  by (simp add: saveNodePositions_def)

lemma reloaded_hub: "nodesMap reloaded ''192.168.2.1'' = Some (hubNode ''192.168.2.1'' 1000 800)"
  by (simp add: reloaded_def scenarioA_hub)

lemma reloaded_storage: "storage reloaded = storage (saveNodePositions True (scenarioA 800 600))"
  by (simp add: reloaded_def)

lemma deltaUpdate_storage:
  "deltaUpdate e w h cs (s\<lparr>storage := st\<rparr>) = (deltaUpdate e w h cs s)\<lparr>storage := st\<rparr>"
  by (simp add: deltaUpdate_def Let_def)

lemma deltaUpdate_storage_kept: "storage (deltaUpdate e w h cs s) = storage s"
  by (simp add: deltaUpdate_def Let_def)

lemma deltaUpdate_flag_kept: "positionsRestored (deltaUpdate e w h cs s) = positionsRestored s"
  by (simp add: deltaUpdate_def Let_def)

lemma initial_storage: "initial st = (initial None)\<lparr>storage := st\<rparr>"
  by (simp add: initial_def)

lemma p1_first_hub:
  "nodesMap (deltaUpdate_p1 demoEnv 800 600 [] (initial (Some storedHub))) ''192.168.2.1''
     = Some (restoreNode \<lparr>pos_x = JNum 10, pos_y = JNum 20, pos_fx = JNum 10, pos_fy = JNum 20\<rparr>
          (hubNode ''192.168.2.1'' 800 600))"
  by (simp add: deltaUpdate_p1_def Let_def filterLoopback_def uniq_def placePorts_def
      processAdded_def syncNodesAndLinks_def initial_def demoEnv_def ensureHub_def
      pruneNodes_def usedNodeIds_def restoreNodePositions_def storedHub_def)



lemma deltaUpdate_p1_flag: "positionsRestored (deltaUpdate_p1 e w h cs s)"
  by (simp add: deltaUpdate_p1_def Let_def restoreNodePositions_def split: option.splits)

lemma syncNodesAndLinks_flag: "positionsRestored (syncNodesAndLinks hub ls s) = positionsRestored s"
  by (simp add: syncNodesAndLinks_def Let_def)

lemma syncNodesAndLinks_storage:
  "syncNodesAndLinks hub ls (s\<lparr>storage := st\<rparr>) = (syncNodesAndLinks hub ls s)\<lparr>storage := st\<rparr>"
  by (simp add: syncNodesAndLinks_def Let_def)

lemma deltaUpdate_p1_later:
  assumes "positionsRestored s"
  shows "deltaUpdate_p1 e w h cs (s\<lparr>storage := st\<rparr>) = (deltaUpdate_p1 e w h cs s)\<lparr>storage := st\<rparr>"
  using assms by (simp add: deltaUpdate_p1_def Let_def syncNodesAndLinks_def)

lemma deltaUpdate_p1_first:
  assumes "\<not> positionsRestored s" and "storage s = Some saved" and "saved k = Some p"
    and "nodesMap (deltaUpdate_p1 e w h cs (s\<lparr>positionsRestored := True\<rparr>)) k = Some n"
  shows "nodesMap (deltaUpdate_p1 e w h cs s) k = Some (restoreNode p n)"
  using assms
  by (simp add: deltaUpdate_p1_def Let_def syncNodesAndLinks_def restoreNodePositions_def)

section \<open>Lemmas about drag gestures\<close>


lemma deltaUpdate_keeps_or_prunes:
  assumes "nodesMap s k = Some n"
  shows "nodesMap (deltaUpdate e w h cs s) k = Some n \<or> nodesMap (deltaUpdate e w h cs s) k = None"
proof (cases "nodesMap (deltaUpdate e w h cs s) k")
  case None
  then show ?thesis by simp
next
  case (Some v)
  from deltaUpdate_node_origin[OF Some] assms have "v = n" by auto
  with Some show ?thesis by simp
qed

lemma onNode_other: "k' \<noteq> k \<Longrightarrow> nodesMap (onNode f k s) k' = nodesMap s k'"
  by (simp add: onNode_def split: option.splits)

lemma onNode_self: "nodesMap (onNode f k s) k = map_option f (nodesMap s k)"
  by (simp add: onNode_def split: option.splits)

lemma saveNodePositions_nodes: "nodesMap (saveNodePositions ok s) = nodesMap s"
  by (simp add: saveNodePositions_def)

lemma ipFreeI:
  assumes "\<And>k n. nodesMap s k = Some n \<Longrightarrow> node_type n = Ip \<Longrightarrow>
     pinned (node_fx n) \<or> pinned (node_fy n) \<Longrightarrow> k \<in> ds"
  shows "ipFree ds s"
  unfolding ipFree_def using assms by blast

lemma ipFreeD:
  assumes "ipFree ds s" "nodesMap s k = Some n" "node_type n = Ip"
    "pinned (node_fx n) \<or> pinned (node_fy n)"
  shows "k \<in> ds"
  using assms unfolding ipFree_def by blast

lemma ipFree_step:
  assumes inv: "ipFree ds s" and ok: "inGesture ds ev"
  shows "ipFree (dragStep ds ev) (step e s ev)"
proof (cases ev)
  case (Update w h cs)
  show ?thesis
  proof (rule ipFreeI)
    fix k n
    assume n: "nodesMap (step e s ev) k = Some n" and t: "node_type n = Ip"
      and p: "pinned (node_fx n) \<or> pinned (node_fy n)"
    from n Update have "nodesMap (deltaUpdate e w h cs s) k = Some n" by simp
    from deltaUpdate_node_origin[OF this] t p have "nodesMap s k = Some n"
      by (auto simp: hubNode_def portNode_def)
    from ipFreeD[OF inv this t p] Update show "k \<in> dragStep ds ev" by simp
  qed
next
  case (DragStart k0)
  show ?thesis
  proof (rule ipFreeI)
    fix k n
    assume n: "nodesMap (step e s ev) k = Some n" and t: "node_type n = Ip"
      and p: "pinned (node_fx n) \<or> pinned (node_fy n)"
    show "k \<in> dragStep ds ev"
    proof (cases "k = k0")
      case True
      with DragStart show ?thesis by simp
    next
      case False
      with n DragStart have "nodesMap s k = Some n" by (simp add: onNode_other)
      from ipFreeD[OF inv this t p] DragStart show ?thesis by simp
    qed
  qed
next
  case (DragMove k0 ex ey)
  show ?thesis
  proof (rule ipFreeI)
    fix k n
    assume n: "nodesMap (step e s ev) k = Some n" and t: "node_type n = Ip"
      and p: "pinned (node_fx n) \<or> pinned (node_fy n)"
    show "k \<in> dragStep ds ev"
    proof (cases "k = k0")
      case True
      with DragMove ok show ?thesis by simp
    next
      case False
      with n DragMove have "nodesMap s k = Some n" by (simp add: onNode_other)
      from ipFreeD[OF inv this t p] DragMove show ?thesis by simp
    qed
  qed
next
  case (DragEnd k0 okSave)
  show ?thesis
  proof (rule ipFreeI)
    fix k n
    assume n: "nodesMap (step e s ev) k = Some n" and t: "node_type n = Ip"
      and p: "pinned (node_fx n) \<or> pinned (node_fy n)"
    show "k \<in> dragStep ds ev"
    proof (cases "k = k0")
      case True
      with n DragEnd obtain d where "nodesMap s k0 = Some d" "n = dragEnded d"
        by (auto simp: saveNodePositions_nodes onNode_self)
      with t p show ?thesis by (auto simp: dragEnded_def split: if_splits)
    next
      case False
      with n DragEnd have "nodesMap s k = Some n"
        by (simp add: saveNodePositions_nodes onNode_other)
      from ipFreeD[OF inv this t p] DragEnd False show ?thesis by simp
    qed
  qed
qed

lemma ipFree_run:
  "ipFree ds s \<Longrightarrow> gestures ds evs \<Longrightarrow> ipFree (foldl dragStep ds evs) (foldl (step e) s evs)"
proof (induction evs arbitrary: ds s)
  case Nil
  then show ?case by simp
next
  case (Cons ev evs)
  from Cons.prems(2) have ok: "inGesture ds ev" and rest: "gestures (dragStep ds ev) evs" by simp_all
  from ipFree_step[OF Cons.prems(1) ok] have "ipFree (dragStep ds ev) (step e s ev)" .
  from Cons.IH[OF this rest] show ?case by simp
qed

lemma ipFree_initial: "ipFree {} (initial st)"
  by (rule ipFreeI) (simp add: initial_def)

lemma dragEnded_type: "node_type (dragEnded d) = node_type d"
  by (simp add: dragEnded_def)

lemma dragged_type: "node_type (dragged ex ey d) = node_type d"
  by (simp add: dragged_def)

lemma dragStarted_type: "node_type (dragStarted d) = node_type d"
  by (simp add: dragStarted_def)

lemma dragIpEvents_node:
  "\<exists>n. nodesMap (runEvents demoEnv dragIpEvents (initial None)) ''10.0.0.2'' = Some n
     \<and> node_type n = Ip"
proof -
  from scenarioA_src[of 800 600] obtain n where
    n: "nodesMap (scenarioA 800 600) ''10.0.0.2'' = Some n" and t: "node_type n = Ip" by blast
  have "runEvents demoEnv dragIpEvents (initial None)
      = saveNodePositions True (onNode dragEnded ''10.0.0.2''
          (onNode (dragged 100 200) ''10.0.0.2'' (onNode dragStarted ''10.0.0.2'' (scenarioA 800 600))))"
    by (simp add: runEvents_def dragIpEvents_def scenarioA_def)
  then have "nodesMap (runEvents demoEnv dragIpEvents (initial None)) ''10.0.0.2''
      = Some (dragEnded (dragged 100 200 (dragStarted n)))"
    by (simp add: saveNodePositions_nodes onNode_self n)
  with t show ?thesis by (simp add: dragEnded_type dragged_type dragStarted_type)
qed

lemma dragHubEvents_first:
  "nodesMap (runEvents demoEnv [Update 800 600 []] (initial None)) ''192.168.2.1''
     = Some (hubNode ''192.168.2.1'' 800 600)"
proof -
  have "nodesMap (deltaUpdate demoEnv 800 600 [] (initial None)) (hubId demoEnv)
      = Some (hubNode (hubId demoEnv) 800 600)"
    by (rule deltaUpdate_hub_created) (simp add: initial_def)
  then show ?thesis by (simp add: runEvents_def demoEnv_def)
qed

lemma dragHubEvents_last:
  "nodesMap (runEvents demoEnv dragHubEvents (initial None)) ''192.168.2.1''
     = Some (dragEnded (dragged 100 200 (dragStarted (hubNode ''192.168.2.1'' 800 600))))"
proof -
  have "runEvents demoEnv dragHubEvents (initial None)
      = saveNodePositions True (onNode dragEnded ''192.168.2.1''
          (onNode (dragged 100 200) ''192.168.2.1'' (onNode dragStarted ''192.168.2.1''
             (runEvents demoEnv [Update 800 600 []] (initial None)))))"
    by (simp add: runEvents_def dragHubEvents_def)
  then show ?thesis
    by (simp add: saveNodePositions_nodes onNode_self dragHubEvents_first)
qed


section \<open>Lemmas about a tuple on a new port\<close>


lemma linkEndsD:
  assumes "linkEnds s" "(a, b) \<in> set (links s)"
  shows "nodesMap s a \<noteq> None" "nodesMap s b \<noteq> None"
  using assms unfolding linkEnds_def by force+

lemma isIp_present: "isIp nodes k \<Longrightarrow> nodes k \<noteq> None"
  by (auto simp: isIp_def split: option.splits)

lemma added_subset: "set (addedConnections prev cs) \<subseteq> set cs"
  by (auto simp: addedConnections_def)

lemma linkEnds_step:
  assumes "linkEnds s"
  shows "linkEnds (deltaUpdate e w h cs s)"
proof -
  let ?C = "filterLoopback cs"
  let ?U = "uniq (map port ?C)"
  let ?n0 = "ensureHub (hubId e) w h (nodesMap s)"
  let ?n1 = "placePorts w h ?U ?n0"
  let ?add = "addedConnections (prevConnections s) ?C"
  let ?st2 = "processAdded e ?add (?n1, links s, draws s)"
  let ?n2 = "fst ?st2"
  let ?l2 = "fst (snd ?st2)"
  let ?rem = "removedConnections (prevConnections s) ?C"
  have keep: "?n2 k \<noteq> None" if "nodesMap s k \<noteq> None" for k
  proof -
    from that obtain v where "nodesMap s k = Some v" by blast
    then have "?n0 k = Some v" by (rule ensureHub_preserve)
    then have "?n1 k = Some v" by (rule placePorts_preserve)
    then have "?n2 k = Some v" by (rule processAdded_preserve)
    then show ?thesis by simp
  qed
  have hub: "?n2 (hubId e) \<noteq> None"
  proof -
    obtain v where "?n0 (hubId e) = Some v" using ensureHub_present[of "hubId e" w h "nodesMap s"] by blast
    then have "?n1 (hubId e) = Some v" by (rule placePorts_preserve)
    then have "?n2 (hubId e) = Some v" by (rule processAdded_preserve)
    then show ?thesis by simp
  qed
  have prt: "?n2 (portNodeId p) \<noteq> None" if pU: "p \<in> set ?U" for p
  proof -
    have "?n1 (portNodeId p) \<noteq> None" by (rule placePorts_present) (rule pU)
    then obtain v where "?n1 (portNodeId p) = Some v" by blast
    then have "?n2 (portNodeId p) = Some v" by (rule processAdded_preserve)
    then show ?thesis by simp
  qed
  from processAdded_links[of e ?add ?n1 "links s" "draws s"] obtain extA where
    l2: "?l2 = links s @ extA"
    and extA: "\<forall>l \<in> set extA. \<exists>c \<in> set ?add.
        (l = (source c, portNodeId (port c)) \<and> isIp ?n2 (source c))
      \<or> (l = (portNodeId (port c), target c) \<and> isIp ?n2 (target c))"
    by blast
  from ensureHubLinks_ext[of "hubId e" ?U "processRemoved ?rem ?l2"] obtain extH where
    l3: "links (deltaUpdate e w h cs s) = processRemoved ?rem ?l2 @ extH"
    and extH: "set extH \<subseteq> (\<lambda>p. (hubId e, portNodeId p)) ` set ?U"
    unfolding deltaUpdate_links by blast
  have ends: "?n2 a \<noteq> None \<and> ?n2 b \<noteq> None" if "(a, b) \<in> set (links (deltaUpdate e w h cs s))" for a b
  proof -
    from that l3 consider "(a, b) \<in> set (processRemoved ?rem ?l2)" | "(a, b) \<in> set extH" by auto
    then show ?thesis
    proof cases
      case 2
      with extH obtain p where "p \<in> set ?U" "a = hubId e" "b = portNodeId p" by auto
      with hub prt show ?thesis by simp
    next
      case 1
      then have "(a, b) \<in> set ?l2" by (simp add: processRemoved_filter)
      with l2 consider "(a, b) \<in> set (links s)" | "(a, b) \<in> set extA" by auto
      then show ?thesis
      proof cases
        case 1
        from linkEndsD[OF assms 1] keep show ?thesis by blast
      next
        case 2
        with extA obtain c where c: "c \<in> set ?add"
          and d: "((a, b) = (source c, portNodeId (port c)) \<and> isIp ?n2 (source c))
              \<or> ((a, b) = (portNodeId (port c), target c) \<and> isIp ?n2 (target c))"
          by blast
        from c added_subset have "c \<in> set ?C" by blast
        then have "port c \<in> set ?U" by (simp add: set_uniq)
        from prt[OF this] d isIp_present show ?thesis by auto
      qed
    qed
  qed
  have "k \<in> dom (nodesMap (deltaUpdate e w h cs s))"
    if "k \<in> set (map fst (links (deltaUpdate e w h cs s))) \<union> set (map snd (links (deltaUpdate e w h cs s)))" for k
  proof -
    from that have u: "k \<in> usedNodeIds (hubId e) (links (deltaUpdate e w h cs s))"
      by (simp add: usedNodeIds_def)
    from that ends have "?n2 k \<noteq> None" by force
    with u show ?thesis by (auto simp: deltaUpdate_nodes pruneNodes_used)
  qed
  then show ?thesis unfolding linkEnds_def by blast
qed

lemma linkEnds_initial: "linkEnds (initial st)"
  by (simp add: linkEnds_def initial_def)

lemma linkEnds_run: "linkEnds s \<Longrightarrow> linkEnds (runCycles e cys s)"
proof (induction cys arbitrary: s)
  case Nil
  then show ?case by (simp add: runCycles_def)
next
  case (Cons cy cys)
  obtain w h cs where cy: "cy = (w, h, cs)" by (cases cy)
  from Cons.prems have "linkEnds (deltaUpdate e w h cs s)" by (rule linkEnds_step)
  then have "linkEnds (runCycles e cys (deltaUpdate e w h cs s))" by (rule Cons.IH)
  then show ?case by (simp add: runCycles_def runCycle_def cy)
qed

lemma hub_kind_after_run:
  "\<exists>n. nodesMap (deltaUpdate e w h cs (runCycles e cys (initial st))) (hubId e) = Some n
      \<and> node_type n = Hub"
proof (cases cys)
  case Nil
  have "hubInv e w h (deltaUpdate e w h cs (initial st))" by (rule hubInv_first)
  with Nil show ?thesis by (simp add: runCycles_def hubInv_def hubNode_def)
next
  case (Cons cy rest)
  obtain w0 h0 cs0 where cy: "cy = (w0, h0, cs0)" by (cases cy)
  have "hubInv e w0 h0 (deltaUpdate e w0 h0 cs0 (initial st))" by (rule hubInv_first)
  then have "hubInv e w0 h0 (runCycles e rest (deltaUpdate e w0 h0 cs0 (initial st)))"
    by (rule hubInv_run)
  then have "hubInv e w0 h0 (runCycles e cys (initial st))"
    by (simp add: Cons cy runCycles_def runCycle_def)
  then have "hubInv e w0 h0 (deltaUpdate e w h cs (runCycles e cys (initial st)))"
    by (rule hubInv_step)
  then show ?thesis by (simp add: hubInv_def hubNode_def)
qed

lemma ensureHubLinks_one_new:
  assumes "distinct ps" and "p \<in> set ps"
    and "\<And>q. q \<in> set ps \<Longrightarrow> q \<noteq> p \<Longrightarrow> hub @ ''->'' @ portNodeId q \<in> set (map linkKey lks)"
    and "hub @ ''->'' @ portNodeId p \<notin> set (map linkKey lks)"
  shows "ensureHubLinks hub ps lks = lks @ [(hub, portNodeId p)]"
  using assms
proof (induction ps arbitrary: lks)
  case Nil
  then show ?case by simp
next
  case (Cons q ps)
  show ?case
  proof (cases "q = p")
    case True
    with Cons.prems(4) have 1: "ensureHubLink hub lks q = lks @ [(hub, portNodeId p)]"
      by (simp add: ensureHubLink_def)
    have "ensureHubLinks hub ps (lks @ [(hub, portNodeId p)]) = lks @ [(hub, portNodeId p)]"
    proof (rule ensureHubLinks_id)
      fix r assume r: "r \<in> set ps"
      with Cons.prems(1) True have "r \<noteq> p" by auto
      with Cons.prems(3)[of r] r
      show "hub @ ''->'' @ portNodeId r \<in> set (map linkKey (lks @ [(hub, portNodeId p)]))"
        by auto
    qed
    with 1 show ?thesis by (simp add: ensureHubLinks_Cons)
  next
    case False
    with Cons.prems(3)[of q] have 1: "ensureHubLink hub lks q = lks"
      by (simp add: ensureHubLink_def)
    from False Cons.prems(2) have p: "p \<in> set ps" by simp
    from Cons.prems(1) have d: "distinct ps" by simp
    have "ensureHubLinks hub ps lks = lks @ [(hub, portNodeId p)]"
      by (rule Cons.IH[OF d p]) (use Cons.prems(3,4) in auto)
    with 1 show ?thesis by (simp add: ensureHubLinks_Cons)
  qed
qed


lemma filterLoopback_append: "filterLoopback (xs @ ys) = filterLoopback xs @ filterLoopback ys"
  by (simp add: filterLoopback_def)

lemma filterLoopback_keep:
  "source c \<noteq> ''127.0.0.1'' \<Longrightarrow> target c \<noteq> ''127.0.0.1'' \<Longrightarrow> filterLoopback (c # ys) = c # filterLoopback ys"
  by (simp add: filterLoopback_def)

lemma filterLoopback_subset: "set (filterLoopback xs) \<subseteq> set xs"
  by (auto simp: filterLoopback_def)



lemma scenarioA_no_port80: "nodesMap (scenarioA 800 600) ''port-80'' = None"
proof -
  have "''port-80'' \<notin> dom (nodesMap (scenarioA 800 600))"
    unfolding scenarioA_dom by simp
  then show ?thesis by blast
qed

lemma appended_ports:
  "uniq (map port (filterLoopback
     [mkConn ''10.0.0.2'' ''8.8.8.8'' 443, mkConn ''10.0.0.2'' ''1.1.1.1'' 80])) = [443, 80]"
  by (simp add: uniq_def filterLoopback_def mkConn_def)

lemma appended_port80: "nodesMap appended ''port-80'' = Some (portNode 800 600 1 80)"
proof -
  let ?cs = "[mkConn ''10.0.0.2'' ''8.8.8.8'' 443, mkConn ''10.0.0.2'' ''1.1.1.1'' 80]"
  have i: "1 < length (uniq (map port (filterLoopback ?cs)))" by (simp add: appended_ports)
  have f: "nodesMap (scenarioA 800 600) (portNodeId (uniq (map port (filterLoopback ?cs)) ! 1)) = None"
    by (simp add: appended_ports pid80 scenarioA_no_port80)
  have n: "hubId demoEnv \<noteq> portNodeId (uniq (map port (filterLoopback ?cs)) ! 1)"
    by (simp add: appended_ports pid80 demoEnv_def)
  from deltaUpdate_port_created[OF demo_hub_no_gt i f n, of 800 600]
  show ?thesis by (simp add: appended_def appended_ports pid80)
qed


section \<open>Claim C1: scenario B\<close>

text \<open>
  C1. From the empty graph, the snapshot of scenario A and then the empty snapshot should
  leave only the hub node and no edge. In network-connections-card.js the second cycle
  removes the two IP edges of the removed tuple and prunes the two IP nodes, but the edge
  from the hub to \<open>port-443\<close> is never removed, so the port node is still referenced and
  stays: the edge list is that one edge and the node map holds the hub and the port node.
  (The other copy of the card rebuilds the edge list and does end with the hub alone, see
  \<open>deltaUpdate_p1_empty\<close>.)
\<close>

theorem scenarioB_delta:
  "links (scenarioB w h w' h') = [(''192.168.2.1'', ''port-443'')]
   \<and> nodesMap (scenarioB w h w' h') ''port-443'' = Some (portNode w h 0 443)
   \<and> dom (nodesMap (scenarioB w h w' h')) = {''192.168.2.1'', ''port-443''}"
  by (auto simp: scenarioB_links scenarioB_nodes scenarioA_port scenarioA_hub split: if_splits)

section \<open>Claim C2: the hub\<close>

text \<open>
  C2. Let the hub id be none of the names a plain object inherits (for such a name the
  test \<open>!this._nodesMap[this.hubId]\<close> never succeeds and the card creates no hub; for any
  other id it is the test on the stored nodes, see \<open>ensureHub_lookup\<close>). After one or more
  update cycles from the empty card (whatever their snapshots and viewports), exactly one
  node has kind hub, it is the node under the hub id, and its pin is the centre of the
  viewport of the first cycle, \<open>(w0 / 2, h0 / 2)\<close>, however the viewports of the later
  cycles differ.
\<close>

theorem hub_invariant:
  assumes "hubId e \<notin> set objectMembers"
  shows "{k. \<exists>n. nodesMap (runCycles e ((w0, h0, cs0) # cys) (initial st)) k = Some n
            \<and> node_type n = Hub} = {hubId e}
   \<and> (\<exists>n. nodesMap (runCycles e ((w0, h0, cs0) # cys) (initial st)) (hubId e) = Some n
        \<and> node_type n = Hub \<and> node_fx n = Num (w0 / 2) \<and> node_fy n = Num (h0 / 2))"
proof -
  have "ensureHub (hubId e) w0 h0 (nodesMap (initial st))
      = (if \<not> truthyAt (nodesMap (initial st)) (hubId e)
         then (nodesMap (initial st))(hubId e \<mapsto> hubNode (hubId e) w0 h0)
         else nodesMap (initial st))"
    by (rule ensureHub_lookup) (rule assms)
  have "hubInv e w0 h0 (deltaUpdate e w0 h0 cs0 (initial st))" by (rule hubInv_first)
  then have "hubInv e w0 h0 (runCycles e cys (deltaUpdate e w0 h0 cs0 (initial st)))"
    by (rule hubInv_run)
  then have "hubInv e w0 h0 (runCycles e ((w0, h0, cs0) # cys) (initial st))"
    by (simp add: runCycles_def runCycle_def)
  then show ?thesis by (simp add: hubInv_def hubNode_def)
qed

theorem hub_invariant_witness:
  "hubId demoEnv \<notin> set objectMembers
   \<and> {k. \<exists>n. nodesMap (runCycles demoEnv
            [(800, 600, [mkConn ''10.0.0.2'' ''8.8.8.8'' 443]), (1000, 800, [])] (initial None)) k
              = Some n \<and> node_type n = Hub} = {''192.168.2.1''}
   \<and> (\<exists>n. nodesMap (runCycles demoEnv
            [(800, 600, [mkConn ''10.0.0.2'' ''8.8.8.8'' 443]), (1000, 800, [])] (initial None))
              ''192.168.2.1'' = Some n
        \<and> node_type n = Hub \<and> node_fx n = Num 400 \<and> node_fy n = Num 300)"
proof -
  have own: "hubId demoEnv \<notin> set objectMembers"
    by (simp add: demoEnv_def objectMembers_def)
  have h: "hubId demoEnv = ''192.168.2.1''" by (simp add: demoEnv_def)
  have c: "(800::real) / 2 = 400" "(600::real) / 2 = 300" by simp_all
  note r = hub_invariant [OF own, of 800 600 "[mkConn ''10.0.0.2'' ''8.8.8.8'' 443]"
      "[(1000, 800, [])]" None]
  have 1: "{k. \<exists>n. nodesMap (runCycles demoEnv
            [(800, 600, [mkConn ''10.0.0.2'' ''8.8.8.8'' 443]), (1000, 800, [])] (initial None)) k
              = Some n \<and> node_type n = Hub} = {''192.168.2.1''}"
    using r [THEN conjunct1] unfolding h .
  have 2: "\<exists>n. nodesMap (runCycles demoEnv
            [(800, 600, [mkConn ''10.0.0.2'' ''8.8.8.8'' 443]), (1000, 800, [])] (initial None))
              ''192.168.2.1'' = Some n
        \<and> node_type n = Hub \<and> node_fx n = Num 400 \<and> node_fy n = Num 300"
    using r [THEN conjunct2] unfolding h c .
  show ?thesis by (rule conjI [OF own conjI [OF 1 2]])
qed

section \<open>Claim C3: the same snapshot twice\<close>

text \<open>
  C3. Let any card state, snapshot and viewports be given. After one update with the
  snapshot, a second update with the same snapshot finds no added and no removed
  connection, and it leaves the node map and the edge list as they are (the whole state,
  in fact), whatever the viewport of the second cycle is.
\<close>

theorem idempotent_update:
  "addedConnections (prevConnections (deltaUpdate e w h cs s)) (filterLoopback cs) = []
   \<and> removedConnections (prevConnections (deltaUpdate e w h cs s)) (filterLoopback cs) = []
   \<and> nodesMap (deltaUpdate e w' h' cs (deltaUpdate e w h cs s)) = nodesMap (deltaUpdate e w h cs s)
   \<and> links (deltaUpdate e w' h' cs (deltaUpdate e w h cs s)) = links (deltaUpdate e w h cs s)
   \<and> deltaUpdate e w' h' cs (deltaUpdate e w h cs s) = deltaUpdate e w h cs s"
proof -
  define s1 where "s1 = deltaUpdate e w h cs s"
  define U where "U = uniq (map port (filterLoopback cs))"
  have prev: "prevConnections s1 = filterLoopback cs"
    by (simp add: s1_def deltaUpdate_prev)
  have hub: "nodesMap s1 (hubId e) \<noteq> None"
    unfolding s1_def by (rule deltaUpdate_hub_present)
  have lks: "ensureHubLinks (hubId e) U (links s1) = links s1"
  proof (rule ensureHubLinks_id)
    fix p assume "p \<in> set U"
    then show "hubId e @ ''->'' @ portNodeId p \<in> set (map linkKey (links s1))"
      unfolding s1_def U_def by (rule deltaUpdate_hubkeys)
  qed
  have nodes: "pruneNodes (hubId e) (links s1) (placePorts w' h' U (nodesMap s1)) = nodesMap s1"
  proof (rule ext)
    fix k
    show "pruneNodes (hubId e) (links s1) (placePorts w' h' U (nodesMap s1)) k = nodesMap s1 k"
    proof (cases "k \<in> usedNodeIds (hubId e) (links s1)")
      case False
      then have "nodesMap s1 k = None"
        using deltaUpdate_dom_used[of e w h cs s k] unfolding s1_def by (cases "nodesMap (deltaUpdate e w h cs s) k") auto
      with False show ?thesis by (simp add: pruneNodes_unused)
    next
      case used: True
      show ?thesis
      proof (cases "nodesMap s1 k")
        case (Some v)
        then have "placePorts w' h' U (nodesMap s1) k = Some v" by (rule placePorts_preserve)
        with used Some show ?thesis by (simp add: pruneNodes_used)
      next
        case None
        have "placePorts w' h' U (nodesMap s1) k = None"
        proof (rule ccontr)
          assume "placePorts w' h' U (nodesMap s1) k \<noteq> None"
          then obtain v where "placePorts w' h' U (nodesMap s1) k = Some v" by blast
          from placePorts_new[OF this] None obtain i where
            i: "i < length U" and k: "k = portNodeId (U ! i)" by auto
          from i have "U ! i \<in> set U" by simp
          then have "nodesMap s1 (portNodeId (U ! i)) \<noteq> None"
            using used k unfolding s1_def U_def by (intro deltaUpdate_port_kept) simp_all
          with None k show False by simp
        qed
        with used None show ?thesis by (simp add: pruneNodes_used)
      qed
    qed
  qed
  have eh: "ensureHub (hubId e) w' h' (nodesMap s1) = nodesMap s1"
    by (rule ensureHub_id) (rule hub)
  have "deltaUpdate e w' h' cs s1 = s1"
    unfolding deltaUpdate_same_prev[OF prev] U_def[symmetric]
    by (simp add: eh lks nodes prev)
  then show ?thesis
    unfolding s1_def[symmetric] by (simp add: prev addedConnections_same removedConnections_same)
qed

section \<open>Claim C4: the star layout\<close>

text \<open>
  C4, as amended. Take a cycle with viewport \<open>(w, h)\<close>, a hub id without the character
  \<open>>\<close>, and the port \<open>p\<close> at index \<open>i\<close> of the distinct ports of the filtered snapshot in
  order of first appearance. If no node is stored under the id of \<open>p\<close> (and that id is not
  the hub id), the cycle ends with the port node pinned at the centre of the current
  viewport, \<open>(w / 2, h / 2)\<close>, plus \<open>(cos a, sin a)\<close> times \<open>r\<close>, where
  \<open>a = (2 pi / 8) (i mod 8)\<close> and \<open>r = (min w h * 0.3 + (i div 8) * 150)\<close> times 1 for an
  even \<open>i mod 8\<close> and 0.5 for an odd one: a function of \<open>i\<close>, \<open>w\<close> and \<open>h\<close> alone. If a node
  is already stored under the id, the cycle leaves it as it is, pin included.
\<close>

theorem port_placement:
  assumes "CHR ''>'' \<notin> set (hubId e)"
    and "i < length (uniq (map port (filterLoopback cs)))"
    and "p = uniq (map port (filterLoopback cs)) ! i"
  shows "(nodesMap s (portNodeId p) = None \<and> hubId e \<noteq> portNodeId p \<longrightarrow>
            nodesMap (deltaUpdate e w h cs s) (portNodeId p) = Some (portNode w h i p))
    \<and> (\<forall>n. nodesMap s (portNodeId p) = Some n \<longrightarrow>
            nodesMap (deltaUpdate e w h cs s) (portNodeId p) = Some n)
    \<and> node_type (portNode w h i p) = Port
    \<and> node_fx (portNode w h i p) = Num (w / 2 + cos (2 * pi / 8 * real (i mod 8))
         * ((min w h * 0.3 + real (i div 8) * 150) * (if even (i mod 8) then 1 else 0.5)))
    \<and> node_fy (portNode w h i p) = Num (h / 2 + sin (2 * pi / 8 * real (i mod 8))
         * ((min w h * 0.3 + real (i div 8) * 150) * (if even (i mod 8) then 1 else 0.5)))"
proof -
  have mem: "p \<in> set (uniq (map port (filterLoopback cs)))"
    using assms(2,3) by simp
  have 1: "nodesMap s (portNodeId p) = None \<and> hubId e \<noteq> portNodeId p \<longrightarrow>
            nodesMap (deltaUpdate e w h cs s) (portNodeId p) = Some (portNode w h i p)"
    using deltaUpdate_port_created[OF assms(1,2), of s w h] assms(3) by simp
  have 2: "\<forall>n. nodesMap s (portNodeId p) = Some n \<longrightarrow>
            nodesMap (deltaUpdate e w h cs s) (portNodeId p) = Some n"
    using deltaUpdate_port_existing[OF assms(1) mem] by blast
  have 3: "node_type (portNode w h i p) = Port" by (simp add: portNode_def)
  from 1 2 3 portNode_pin[of w h i p] show ?thesis by blast
qed


theorem port_placement_witness:
  "nodesMap (deltaUpdate demoEnv 800 600 [mkConn ''10.0.0.2'' ''8.8.8.8'' 443] (initial None))
       ''port-443'' = Some (portNode 800 600 0 443)
   \<and> nodesMap (deltaUpdate demoEnv 1000 800 [mkConn ''10.0.0.2'' ''8.8.8.8'' 443]
         (scenarioA 800 600)) ''port-443'' = Some (portNode 800 600 0 443)
   \<and> node_fx (portNode 800 600 0 443) = Num 580
   \<and> node_fy (portNode 800 600 0 443) = Num 300"
proof -
  have i: "0 < length (uniq (map port (filterLoopback [mkConn ''10.0.0.2'' ''8.8.8.8'' 443])))"
    and p: "443 = uniq (map port (filterLoopback [mkConn ''10.0.0.2'' ''8.8.8.8'' 443])) ! 0"
    by (simp_all add: demo_ports)
  have fresh: "nodesMap (initial None) (portNodeId 443) = None" by (simp add: initial_def)
  have old: "nodesMap (scenarioA 800 600) (portNodeId 443) = Some (portNode 800 600 0 443)"
    by (simp add: pid443 scenarioA_port)
  from port_placement [OF demo_hub_no_gt i p, where s = "initial None" and w = 800 and h = 600]
    fresh demo_hub_not_port
  have 1: "nodesMap (deltaUpdate demoEnv 800 600 [mkConn ''10.0.0.2'' ''8.8.8.8'' 443]
      (initial None)) ''port-443'' = Some (portNode 800 600 0 443)"
    and 3: "node_fx (portNode 800 600 0 443) = Num 580"
    and 4: "node_fy (portNode 800 600 0 443) = Num 300"
    by (simp_all add: pid443)
  from port_placement [OF demo_hub_no_gt i p, where s = "scenarioA 800 600" and w = 1000 and h = 800]
    old
  have 2: "nodesMap (deltaUpdate demoEnv 1000 800 [mkConn ''10.0.0.2'' ''8.8.8.8'' 443]
         (scenarioA 800 600)) ''port-443'' = Some (portNode 800 600 0 443)"
    by (simp add: pid443)
  from 1 2 3 4 show ?thesis by blast
qed


text \<open>
  As stated, C4 places the port around the hub. The hub keeps the pin of its first cycle,
  while \<open>portNode\<close> uses the centre of the current viewport: after a first cycle in an
  800 by 600 viewport the hub is pinned at (400, 300); a port first seen in a cycle with a
  1000 by 800 viewport is pinned at (740, 400), not at the hub's pin plus the offset,
  which is (640, 300).
\<close>

theorem port_placement_counterexample:
  "map_option node_fx (nodesMap resized ''192.168.2.1'') = Some (Num 400)
   \<and> map_option node_fy (nodesMap resized ''192.168.2.1'') = Some (Num 300)
   \<and> map_option node_fx (nodesMap resized ''port-443'') = Some (Num 740)
   \<and> map_option node_fy (nodesMap resized ''port-443'') = Some (Num 400)
   \<and> map_option node_fx (nodesMap resized ''port-443'')
       \<noteq> map_option (\<lambda>n. js_plus (node_fx n) (cos (starAngle 0) * starRadius 1000 800 0))
            (nodesMap resized ''192.168.2.1'')
   \<and> map_option node_fy (nodesMap resized ''port-443'')
       \<noteq> map_option (\<lambda>n. js_plus (node_fy n) (sin (starAngle 0) * starRadius 1000 800 0))
            (nodesMap resized ''192.168.2.1'')"
  by (simp add: resized_hub resized_port hubNode_def portNode_def starAngle_def starRadius_def)

section \<open>Claim C5: one more tuple, on a new port\<close>

text \<open>
  C5, as amended. Let a card with a hub id without the character \<open>>\<close> have run any
  cycles and then a cycle with the snapshot \<open>xs @ ys\<close>; let the next snapshot be
  \<open>xs @ c # ys\<close>, where \<open>c\<close> is not a loopback tuple and its port is the port of no tuple
  of \<open>xs @ ys\<close>, and let no node be stored under the id of that port. Then the next cycle
  creates the port node, pinned by the star layout at the index the port has among the
  distinct ports of the new snapshot (the number of distinct ports of the filtered \<open>xs\<close>);
  every other port node after the cycle was there before; the cycle only appends edges,
  and exactly one appended edge starts at the hub, the edge from the hub to the new port,
  which was not there before.
\<close>

theorem new_port_tuple:
  assumes gt: "CHR ''>'' \<notin> set (hubId e)"
    and new: "port c \<notin> port ` set (xs @ ys)"
    and src: "source c \<noteq> ''127.0.0.1''" and tgt: "target c \<noteq> ''127.0.0.1''"
    and s1: "s1 = deltaUpdate e w h (xs @ ys) (runCycles e cys (initial st))"
    and fresh: "nodesMap s1 (portNodeId (port c)) = None"
  shows "nodesMap (deltaUpdate e w' h' (xs @ c # ys) s1) (portNodeId (port c))
        = Some (portNode w' h' (length (uniq (map port (filterLoopback xs)))) (port c))
    \<and> (\<forall>k n. nodesMap (deltaUpdate e w' h' (xs @ c # ys) s1) k = Some n \<and> node_type n = Port
          \<longrightarrow> k = portNodeId (port c) \<or> nodesMap s1 k = Some n)
    \<and> (\<exists>ext. links (deltaUpdate e w' h' (xs @ c # ys) s1) = links s1 @ ext
          \<and> filter (\<lambda>l. fst l = hubId e) ext = [(hubId e, portNodeId (port c))])
    \<and> (hubId e, portNodeId (port c)) \<notin> set (links s1)"
proof -
  let ?p = "port c"
  let ?C1 = "filterLoopback (xs @ ys)"
  let ?C2 = "filterLoopback (xs @ c # ys)"
  let ?U1 = "uniq (map port ?C1)"
  let ?U2 = "uniq (map port ?C2)"
  let ?i = "length (uniq (map port (filterLoopback xs)))"
  let ?s2 = "deltaUpdate e w' h' (xs @ c # ys) s1"
  have C2: "?C2 = filterLoopback xs @ c # filterLoopback ys"
    by (simp add: filterLoopback_append filterLoopback_keep[OF src tgt])
  have C1: "?C1 = filterLoopback xs @ filterLoopback ys"
    by (rule filterLoopback_append)
  have prev: "prevConnections s1 = ?C1" by (simp add: s1 deltaUpdate_prev)
  have pnew: "?p \<notin> port ` set ?C1" using new filterLoopback_subset[of "xs @ ys"] by blast
  have setU2: "set ?U2 = insert ?p (set ?U1)"
    by (auto simp: set_uniq C1 C2)
  have pU2: "?p \<in> set ?U2" by (simp add: setU2)
  \<comment> \<open>the hub, and the ports of the first snapshot, are stored\<close>
  from hub_kind_after_run[of e w h "xs @ ys" cys st] obtain hn where
    hub: "nodesMap s1 (hubId e) = Some hn" and hubk: "node_type hn = Hub"
    unfolding s1 by blast
  from hub fresh have hubne: "hubId e \<noteq> portNodeId ?p" by auto
  have ends: "linkEnds s1"
    unfolding s1 by (rule linkEnds_step) (rule linkEnds_run[OF linkEnds_initial])
  have old_ports: "nodesMap s1 (portNodeId q) \<noteq> None" if q: "q \<in> set ?U1" for q
    unfolding s1
    by (rule deltaUpdate_port_kept[OF q]) (rule deltaUpdate_port_used(2)[OF gt q])
  have old_keys: "hubId e @ ''->'' @ portNodeId q \<in> set (map linkKey (links s1))"
    if q: "q \<in> set ?U1" for q
    unfolding s1 by (rule deltaUpdate_hubkeys) (rule q)
  \<comment> \<open>the index of the new port\<close>
  have "?p \<notin> set (map port (filterLoopback xs))" using pnew by (auto simp: C1)
  from uniq_append_new[OF this, of "map port (filterLoopback ys)"] obtain zs where
    U2: "?U2 = uniq (map port (filterLoopback xs)) @ ?p # zs"
    by (auto simp: C2)
  then have idx: "?i < length ?U2" and at: "?U2 ! ?i = ?p" by (simp_all add: nth_append)
  have 1: "nodesMap ?s2 (portNodeId ?p) = Some (portNode w' h' ?i ?p)"
    using deltaUpdate_port_created[OF gt idx, of s1 w' h'] fresh hubne by (simp add: at)
  \<comment> \<open>no other port node is new\<close>
  have 2: "k = portNodeId ?p \<or> nodesMap s1 k = Some n"
    if n: "nodesMap ?s2 k = Some n" and t: "node_type n = Port" for k n
  proof -
    from deltaUpdate_node_origin[OF n] t
    consider "nodesMap s1 k = Some n"
      | j where "j < length ?U2" "k = portNodeId (?U2 ! j)" "nodesMap s1 k = None"
      by (auto simp: hubNode_def)
    then show ?thesis
    proof cases
      case 1
      then show ?thesis by simp
    next
      case 2
      then have "?U2 ! j \<in> set ?U2" by simp
      with setU2 have "?U2 ! j = ?p \<or> ?U2 ! j \<in> set ?U1" by auto
      then show ?thesis
      proof
        assume "?U2 ! j = ?p"
        with 2 show ?thesis by simp
      next
        assume "?U2 ! j \<in> set ?U1"
        then have "nodesMap s1 (portNodeId (?U2 ! j)) \<noteq> None" by (rule old_ports)
        with 2 show ?thesis by simp
      qed
    qed
  qed
  \<comment> \<open>the edges\<close>
  let ?add = "addedConnections (prevConnections s1) ?C2"
  let ?rem = "removedConnections (prevConnections s1) ?C2"
  let ?n1 = "placePorts w' h' ?U2 (ensureHub (hubId e) w' h' (nodesMap s1))"
  let ?st2 = "processAdded e ?add (?n1, links s1, draws s1)"
  have rem: "?rem = []"
    by (auto simp: removedConnections_def prev C1 C2 filter_empty_conv)
  have add: "c' = c" if a: "c' \<in> set ?add" for c'
  proof (rule ccontr)
    assume ne: "c' \<noteq> c"
    from a have m: "c' \<in> set ?C2" and k: "connectionKey c' \<notin> set (map connectionKey ?C1)"
      by (simp_all add: addedConnections_def prev)
    from m ne have "c' \<in> set ?C1" by (auto simp: C1 C2)
    with k show False by simp
  qed
  from processAdded_links[of e ?add ?n1 "links s1" "draws s1"] obtain extA where
    l2: "fst (snd ?st2) = links s1 @ extA"
    and extA: "\<forall>l \<in> set extA. \<exists>c' \<in> set ?add.
        (l = (source c', portNodeId (port c')) \<and> isIp (fst ?st2) (source c'))
      \<or> (l = (portNodeId (port c'), target c') \<and> isIp (fst ?st2) (target c'))"
    by blast
  have hub2: "fst ?st2 (hubId e) = Some hn"
  proof -
    have "ensureHub (hubId e) w' h' (nodesMap s1) (hubId e) = Some hn"
      by (rule ensureHub_preserve) (rule hub)
    then have "?n1 (hubId e) = Some hn" by (rule placePorts_preserve)
    then show ?thesis by (rule processAdded_preserve)
  qed
  have nohubA: "fst l \<noteq> hubId e" if l: "l \<in> set extA" for l
  proof
    assume f: "fst l = hubId e"
    from extA l obtain c' where c': "c' \<in> set ?add"
      and d: "(l = (source c', portNodeId (port c')) \<and> isIp (fst ?st2) (source c'))
        \<or> (l = (portNodeId (port c'), target c') \<and> isIp (fst ?st2) (target c'))"
      by blast
    from add[OF c'] have cc: "c' = c" .
    from d show False
    proof
      assume "l = (source c', portNodeId (port c')) \<and> isIp (fst ?st2) (source c')"
      with f have "isIp (fst ?st2) (hubId e)" by auto
      with hub2 hubk show False by (simp add: isIp_def)
    next
      assume "l = (portNodeId (port c'), target c') \<and> isIp (fst ?st2) (target c')"
      with f cc hubne show False by auto
    qed
  qed
  have 4: "(hubId e, portNodeId ?p) \<notin> set (links s1)"
  proof
    assume "(hubId e, portNodeId ?p) \<in> set (links s1)"
    from linkEndsD(2)[OF ends this] fresh show False by simp
  qed
  have nokey: "hubId e @ ''->'' @ portNodeId ?p \<notin> set (map linkKey (links s1 @ extA))"
  proof
    assume "hubId e @ ''->'' @ portNodeId ?p \<in> set (map linkKey (links s1 @ extA))"
    then have "\<exists>l. l \<in> set (links s1 @ extA) \<and> hubId e @ ''->'' @ portNodeId ?p = linkKey l"
      unfolding set_map image_iff Bex_def .
    then obtain l where l: "l \<in> set (links s1 @ extA)"
      and k: "linkKey l = hubId e @ ''->'' @ portNodeId ?p" by (elim exE conjE) (rule that, simp_all)
    from linkKey_eq_hub[OF gt k] have leq: "l = (hubId e, portNodeId ?p)" .
    from l consider "l \<in> set (links s1)" | "l \<in> set extA" by auto
    then show False
    proof cases
      case 1
      with leq 4 show False by simp
    next
      case 2
      from nohubA[OF 2] leq show False by simp
    qed
  qed
  have "links ?s2 = ensureHubLinks (hubId e) ?U2 (links s1 @ extA)"
    unfolding deltaUpdate_links rem processRemoved_Nil l2 ..
  also have "\<dots> = (links s1 @ extA) @ [(hubId e, portNodeId ?p)]"
  proof (rule ensureHubLinks_one_new[OF distinct_uniq pU2 _ nokey])
    fix q assume "q \<in> set ?U2" "q \<noteq> ?p"
    with setU2 have "q \<in> set ?U1" by auto
    from old_keys[OF this]
    show "hubId e @ ''->'' @ portNodeId q \<in> set (map linkKey (links s1 @ extA))" by auto
  qed
  finally have l3: "links ?s2 = links s1 @ (extA @ [(hubId e, portNodeId ?p)])" by simp
  have "filter (\<lambda>l. fst l = hubId e) (extA @ [(hubId e, portNodeId ?p)]) = [(hubId e, portNodeId ?p)]"
    using nohubA by (simp add: filter_empty_conv)
  with l3 have 3: "\<exists>ext. links ?s2 = links s1 @ ext
          \<and> filter (\<lambda>l. fst l = hubId e) ext = [(hubId e, portNodeId ?p)]"
    by blast
  from 1 2 3 4 show ?thesis by blast
qed

theorem new_port_tuple_witness:
  "nodesMap (scenarioA 800 600) ''port-80'' = None
   \<and> nodesMap appended ''port-80'' = Some (portNode 800 600 1 80)
   \<and> (\<exists>ext. links appended = links (scenarioA 800 600) @ ext
         \<and> filter (\<lambda>l. fst l = ''192.168.2.1'') ext = [(''192.168.2.1'', ''port-80'')])
   \<and> (''192.168.2.1'', ''port-80'') \<notin> set (links (scenarioA 800 600))"
proof -
  let ?c = "mkConn ''10.0.0.2'' ''1.1.1.1'' 80"
  have new: "port ?c \<notin> port ` set ([mkConn ''10.0.0.2'' ''8.8.8.8'' 443] @ [])"
    by (simp add: mkConn_def)
  have src: "source ?c \<noteq> ''127.0.0.1''" and tgt: "target ?c \<noteq> ''127.0.0.1''"
    by (simp_all add: mkConn_def)
  have s1: "scenarioA 800 600 = deltaUpdate demoEnv 800 600 ([mkConn ''10.0.0.2'' ''8.8.8.8'' 443] @ [])
      (runCycles demoEnv [] (initial None))"
    by (simp add: scenarioA_def runCycles_def)
  have fresh: "nodesMap (scenarioA 800 600) (portNodeId (port ?c)) = None"
    by (simp add: mkConn_def pid80 scenarioA_no_port80)
  have len: "length (uniq (map port (filterLoopback [mkConn ''10.0.0.2'' ''8.8.8.8'' 443]))) = 1"
    by (simp add: demo_ports)
  have p: "port ?c = 80" and h: "hubId demoEnv = ''192.168.2.1''"
    by (simp_all add: mkConn_def demoEnv_def)
  from new_port_tuple [OF demo_hub_no_gt new src tgt s1 fresh, of 800 600]
  show ?thesis
    unfolding len p h pid80 appended_def[symmetric, unfolded append_Cons append_Nil]
    by (simp add: appended_def scenarioA_no_port80)
qed


text \<open>
  As stated, C5 pins the new port node at ring 0, position 0 (angle 0, the base radius).
  After scenario A in an 800 by 600 viewport, a tuple on port 80 appended to the snapshot
  makes 80 the second distinct port: its node is pinned at index 1, angle \<open>pi / 4\<close> and
  radius 90, and neither coordinate is the one of ring 0, position 0.
\<close>

theorem new_port_tuple_counterexample:
  "nodesMap (scenarioA 800 600) ''port-80'' = None
   \<and> nodesMap appended ''port-80'' = Some (portNode 800 600 1 80)
   \<and> starAngle 1 = pi / 4
   \<and> starRadius 800 600 1 = 90
   \<and> node_fx (portNode 800 600 1 80) \<noteq> Num (800 / 2 + cos 0 * (min 800 600 * 0.3))
   \<and> node_fy (portNode 800 600 1 80) \<noteq> Num (600 / 2 + sin 0 * (min 800 600 * 0.3))"
proof -
  have a: "starAngle 1 = pi / 4" by (simp add: starAngle_def)
  have r: "starRadius 800 600 1 = 90" by (simp add: starRadius_def)
  have x: "cos (pi / 4) \<noteq> 2" using cos_le_one[of "pi / 4"] by linarith
  have y: "sin (pi / 4) \<noteq> 0" by (simp add: sin_45)
  have fx: "node_fx (portNode 800 600 1 80) = Num (800 / 2 + cos (pi / 4) * 90)"
    and fy: "node_fy (portNode 800 600 1 80) = Num (600 / 2 + sin (pi / 4) * 90)"
    unfolding portNode_def a r by simp_all
  have 5: "node_fx (portNode 800 600 1 80) \<noteq> Num (800 / 2 + cos 0 * (min 800 600 * 0.3))"
    unfolding fx using x by simp
  have 6: "node_fy (portNode 800 600 1 80) \<noteq> Num (600 / 2 + sin 0 * (min 800 600 * 0.3))"
    unfolding fy using y by simp
  from scenarioA_no_port80 appended_port80 a r 5 6 show ?thesis by blast
qed

section \<open>Claim C6: reading the stored positions\<close>

text \<open>
  C6. The stored positions should be read once, at the first data arrival, and applied to
  the nodes. In network-connections-card.js the update cycle never reads the storage: its
  result does not depend on the stored record, and the flag \<open>_positionsRestored\<close> is
  never set. With a record that stores the hub at (10, 20), the first cycle in an 800 by
  600 viewport leaves the hub pinned at (400, 300). The other copy of the card restores on
  its first cycle and pins the hub at (10, 20).
\<close>

theorem stored_positions_not_read:
  "deltaUpdate e w h cs (s\<lparr>storage := st\<rparr>) = (deltaUpdate e w h cs s)\<lparr>storage := st\<rparr>
   \<and> positionsRestored (deltaUpdate e w h cs s) = positionsRestored s
   \<and> map_option node_fx (nodesMap (deltaUpdate demoEnv 800 600 [] (initial (Some storedHub)))
         ''192.168.2.1'') = Some (Num 400)
   \<and> map_option node_fy (nodesMap (deltaUpdate demoEnv 800 600 [] (initial (Some storedHub)))
         ''192.168.2.1'') = Some (Num 300)
   \<and> map_option node_fx (nodesMap (deltaUpdate_p1 demoEnv 800 600 [] (initial (Some storedHub)))
         ''192.168.2.1'') = Some (Num 10)
   \<and> map_option node_fy (nodesMap (deltaUpdate_p1 demoEnv 800 600 [] (initial (Some storedHub)))
         ''192.168.2.1'') = Some (Num 20)"
proof -
  have "nodesMap (deltaUpdate demoEnv 800 600 [] (initial (Some storedHub))) (hubId demoEnv)
      = Some (hubNode (hubId demoEnv) 800 600)"
    by (rule deltaUpdate_hub_created) (simp add: initial_def)
  then have "nodesMap (deltaUpdate demoEnv 800 600 [] (initial (Some storedHub))) ''192.168.2.1''
      = Some (hubNode ''192.168.2.1'' 800 600)"
    by (simp add: demoEnv_def)
  then show ?thesis
    by (simp add: deltaUpdate_storage deltaUpdate_flag_kept p1_first_hub hubNode_def restoreNode_def)
qed

section \<open>Claim C7: pinned and floating nodes\<close>

text \<open>
  C7, as amended. Start from the empty card and run any sequence of update cycles and
  drag callbacks in which a gesture reports a move or an end only after its start. Then an
  IP node with a non-null \<open>fx\<close> or \<open>fy\<close> has a gesture in progress, and the drag end
  callback resets \<open>fx\<close> and \<open>fy\<close> of an IP node to null. An update cycle leaves every
  stored node as it is or prunes it, and it never prunes the hub: the pins of hub and
  port nodes do not change across update cycles. A drag gesture does move them: the move
  callback sets \<open>fx\<close> and \<open>fy\<close> of any node to the pointer position, and the end
  callback leaves a hub or port node as the gesture put it.
\<close>

theorem pin_states:
  assumes "gestures {} evs"
  shows "(\<forall>k n. nodesMap (runEvents e evs (initial st)) k = Some n \<and> node_type n = Ip
            \<and> (pinned (node_fx n) \<or> pinned (node_fy n)) \<longrightarrow> k \<in> dragging evs)
    \<and> (\<forall>d. node_type d = Ip \<longrightarrow> node_fx (dragEnded d) = Null \<and> node_fy (dragEnded d) = Null)
    \<and> (\<forall>s k n w h cs. nodesMap s k = Some n \<longrightarrow>
          nodesMap (deltaUpdate e w h cs s) k = Some n \<or> nodesMap (deltaUpdate e w h cs s) k = None)
    \<and> (\<forall>s n w h cs. nodesMap s (hubId e) = Some n \<longrightarrow>
          nodesMap (deltaUpdate e w h cs s) (hubId e) = Some n)
    \<and> (\<forall>d ex ey. node_fx (dragged ex ey d) = Num ex \<and> node_fy (dragged ex ey d) = Num ey)
    \<and> (\<forall>d. node_type d \<noteq> Ip \<longrightarrow> dragEnded d = d)"
proof -
  have "ipFree (dragging evs) (runEvents e evs (initial st))"
    unfolding dragging_def runEvents_def by (rule ipFree_run[OF ipFree_initial assms])
  then have 1: "\<forall>k n. nodesMap (runEvents e evs (initial st)) k = Some n \<and> node_type n = Ip
            \<and> (pinned (node_fx n) \<or> pinned (node_fy n)) \<longrightarrow> k \<in> dragging evs"
    unfolding ipFree_def by blast
  have 2: "\<forall>d. node_type d = Ip \<longrightarrow> node_fx (dragEnded d) = Null \<and> node_fy (dragEnded d) = Null"
    by (simp add: dragEnded_def)
  have 3: "\<forall>s k n w h cs. nodesMap s k = Some n \<longrightarrow>
          nodesMap (deltaUpdate e w h cs s) k = Some n \<or> nodesMap (deltaUpdate e w h cs s) k = None"
    by (intro allI impI) (rule deltaUpdate_keeps_or_prunes)
  have 4: "\<forall>s n w h cs. nodesMap s (hubId e) = Some n \<longrightarrow>
          nodesMap (deltaUpdate e w h cs s) (hubId e) = Some n"
    by (intro allI impI) (rule deltaUpdate_hub_kept)
  have 5: "\<forall>d ex ey. node_fx (dragged ex ey d) = Num ex \<and> node_fy (dragged ex ey d) = Num ey"
    by (simp add: dragged_def)
  have 6: "\<forall>d. node_type d \<noteq> Ip \<longrightarrow> dragEnded d = d"
    by (simp add: dragEnded_def)
  from 1 2 3 4 5 6 show ?thesis by blast
qed


theorem pin_states_witness:
  "gestures {} dragIpEvents
   \<and> dragging dragIpEvents = {}
   \<and> (\<exists>n. nodesMap (runEvents demoEnv dragIpEvents (initial None)) ''10.0.0.2'' = Some n
         \<and> node_type n = Ip \<and> \<not> pinned (node_fx n) \<and> \<not> pinned (node_fy n))"
proof -
  have g: "gestures {} dragIpEvents" by (simp add: dragIpEvents_def)
  have d: "dragging dragIpEvents = {}" by (simp add: dragging_def dragIpEvents_def)
  from dragIpEvents_node obtain n where
    n: "nodesMap (runEvents demoEnv dragIpEvents (initial None)) ''10.0.0.2'' = Some n"
    and t: "node_type n = Ip" by blast
  from pin_states [OF g, of demoEnv None] have
    "\<forall>k n. nodesMap (runEvents demoEnv dragIpEvents (initial None)) k = Some n \<and> node_type n = Ip
            \<and> (pinned (node_fx n) \<or> pinned (node_fy n)) \<longrightarrow> k \<in> dragging dragIpEvents"
    by blast
  with n t d have "\<not> pinned (node_fx n) \<and> \<not> pinned (node_fy n)" by blast
  with g d n t show ?thesis by blast
qed


text \<open>
  As stated, C7 keeps the pin of a hub or port node at its creation values under drag
  events too. The callbacks are attached to every node: the hub created at (400, 300) and
  dragged to (100, 200) is pinned at (100, 200) after the gesture.
\<close>

theorem pin_states_counterexample:
  "gestures {} dragHubEvents
   \<and> map_option node_type (nodesMap (runEvents demoEnv [Update 800 600 []] (initial None))
        ''192.168.2.1'') = Some Hub
   \<and> map_option node_fx (nodesMap (runEvents demoEnv [Update 800 600 []] (initial None))
        ''192.168.2.1'') = Some (Num 400)
   \<and> map_option node_fy (nodesMap (runEvents demoEnv [Update 800 600 []] (initial None))
        ''192.168.2.1'') = Some (Num 300)
   \<and> map_option node_type (nodesMap (runEvents demoEnv dragHubEvents (initial None))
        ''192.168.2.1'') = Some Hub
   \<and> map_option node_fx (nodesMap (runEvents demoEnv dragHubEvents (initial None))
        ''192.168.2.1'') = Some (Num 100)
   \<and> map_option node_fy (nodesMap (runEvents demoEnv dragHubEvents (initial None))
        ''192.168.2.1'') = Some (Num 200)"
  unfolding dragHubEvents_first dragHubEvents_last
  by (simp add: dragHubEvents_def hubNode_def dragEnded_def dragged_def dragStarted_def)

section \<open>Claim C8: saving and restoring\<close>

text \<open>
  C8. Save the positions of a node map, and restore into another node map. For every id
  in both: a field \<open>x\<close>, \<open>y\<close>, \<open>fx\<close> or \<open>fy\<close> that was a number when saved is the same
  number after the restore; a field that was not a number when saved (undefined, null or
  NaN: it is stored as missing or null) leaves the field of the live node as it was. More
  generally, for any stored record, a stored field that is a number overwrites the field
  of the live node and any other stored field leaves it untouched (never zeroed); the id,
  kind and label of the live node stay, and a node without a stored record is untouched.
\<close>

theorem persistence_roundtrip:
  assumes "nodesMap s' k = Some n'"
  shows "(\<forall>n. nodesMap s k = Some n \<and> storage s' = storage (saveNodePositions True s) \<longrightarrow>
            (\<exists>m. nodesMap (restoreNodePositions s') k = Some m
              \<and> (\<forall>r. node_x n = Num r \<longrightarrow> node_x m = Num r)
              \<and> (\<forall>r. node_y n = Num r \<longrightarrow> node_y m = Num r)
              \<and> (\<forall>r. node_fx n = Num r \<longrightarrow> node_fx m = Num r)
              \<and> (\<forall>r. node_fy n = Num r \<longrightarrow> node_fy m = Num r)
              \<and> (node_x n \<notin> range Num \<longrightarrow> node_x m = node_x n')
              \<and> (node_y n \<notin> range Num \<longrightarrow> node_y m = node_y n')
              \<and> (node_fx n \<notin> range Num \<longrightarrow> node_fx m = node_fx n')
              \<and> (node_fy n \<notin> range Num \<longrightarrow> node_fy m = node_fy n')))
    \<and> (\<forall>saved p. storage s' = Some saved \<and> saved k = Some p \<longrightarrow>
            (\<exists>m. nodesMap (restoreNodePositions s') k = Some m
              \<and> node_x m = (case pos_x p of JNum r \<Rightarrow> Num r | _ \<Rightarrow> node_x n')
              \<and> node_y m = (case pos_y p of JNum r \<Rightarrow> Num r | _ \<Rightarrow> node_y n')
              \<and> node_fx m = (case pos_fx p of JNum r \<Rightarrow> Num r | _ \<Rightarrow> node_fx n')
              \<and> node_fy m = (case pos_fy p of JNum r \<Rightarrow> Num r | _ \<Rightarrow> node_fy n')
              \<and> node_id m = node_id n' \<and> node_type m = node_type n'
              \<and> node_label m = node_label n'))
    \<and> (\<forall>saved. storage s' = Some saved \<and> saved k = None \<longrightarrow>
            nodesMap (restoreNodePositions s') k = Some n')"
proof -
  have 2: "\<exists>m. nodesMap (restoreNodePositions s') k = Some m
              \<and> node_x m = (case pos_x p of JNum r \<Rightarrow> Num r | _ \<Rightarrow> node_x n')
              \<and> node_y m = (case pos_y p of JNum r \<Rightarrow> Num r | _ \<Rightarrow> node_y n')
              \<and> node_fx m = (case pos_fx p of JNum r \<Rightarrow> Num r | _ \<Rightarrow> node_fx n')
              \<and> node_fy m = (case pos_fy p of JNum r \<Rightarrow> Num r | _ \<Rightarrow> node_fy n')
              \<and> node_id m = node_id n' \<and> node_type m = node_type n'
              \<and> node_label m = node_label n'"
    if "storage s' = Some saved" "saved k = Some p" for saved p
    using restoreNodePositions_at[OF that assms]
    by (simp add: restoreNode_def restoreField_case)
  have 1: "\<exists>m. nodesMap (restoreNodePositions s') k = Some m
              \<and> (\<forall>r. node_x n = Num r \<longrightarrow> node_x m = Num r)
              \<and> (\<forall>r. node_y n = Num r \<longrightarrow> node_y m = Num r)
              \<and> (\<forall>r. node_fx n = Num r \<longrightarrow> node_fx m = Num r)
              \<and> (\<forall>r. node_fy n = Num r \<longrightarrow> node_fy m = Num r)
              \<and> (node_x n \<notin> range Num \<longrightarrow> node_x m = node_x n')
              \<and> (node_y n \<notin> range Num \<longrightarrow> node_y m = node_y n')
              \<and> (node_fx n \<notin> range Num \<longrightarrow> node_fx m = node_fx n')
              \<and> (node_fy n \<notin> range Num \<longrightarrow> node_fy m = node_fy n')"
    if n: "nodesMap s k = Some n" and st: "storage s' = storage (saveNodePositions True s)" for n
  proof -
    have a: "storage s' = Some (\<lambda>nid. map_option nodePosition (nodesMap s nid))"
      using st by (simp add: saveNodePositions_storage)
    have b: "(\<lambda>nid. map_option nodePosition (nodesMap s nid)) k = Some (nodePosition n)"
      using n by simp
    have "nodesMap (restoreNodePositions s') k = Some (restoreNode (nodePosition n) n')"
      by (rule restoreNodePositions_at[OF a b assms])
    moreover have "(\<forall>r. v = Num r \<longrightarrow> restoreField (toJson v) old = Num r)
        \<and> (v \<notin> range Num \<longrightarrow> restoreField (toJson v) old = old)" for v old
      by (cases v) auto
    ultimately show ?thesis
      by (simp add: restoreNode_def nodePosition_def)
  qed
  have 3: "nodesMap (restoreNodePositions s') k = Some n'"
    if "storage s' = Some saved" "saved k = None" for saved
    using restoreNodePositions_absent[OF that] assms by simp
  from 1 2 3 show ?thesis by blast
qed


theorem persistence_roundtrip_witness:
  "map_option node_fx (nodesMap reloaded ''192.168.2.1'') = Some (Num 500)
   \<and> map_option node_fy (nodesMap reloaded ''192.168.2.1'') = Some (Num 400)
   \<and> map_option node_fx (nodesMap (restoreNodePositions reloaded) ''192.168.2.1'') = Some (Num 400)
   \<and> map_option node_fy (nodesMap (restoreNodePositions reloaded) ''192.168.2.1'') = Some (Num 300)
   \<and> map_option node_x (nodesMap (restoreNodePositions reloaded) ''192.168.2.1'') = Some Undefined
   \<and> map_option node_y (nodesMap (restoreNodePositions reloaded) ''192.168.2.1'') = Some Undefined"
proof -
  have old: "nodesMap (scenarioA 800 600) ''192.168.2.1'' = Some (hubNode ''192.168.2.1'' 800 600)
      \<and> storage reloaded = storage (saveNodePositions True (scenarioA 800 600))"
    by (simp add: scenarioA_hub reloaded_storage)
  from persistence_roundtrip [OF reloaded_hub, of "scenarioA 800 600"] old
  obtain m where m: "nodesMap (restoreNodePositions reloaded) ''192.168.2.1'' = Some m"
    and fx: "\<forall>r. node_fx (hubNode ''192.168.2.1'' 800 600) = Num r \<longrightarrow> node_fx m = Num r"
    and fy: "\<forall>r. node_fy (hubNode ''192.168.2.1'' 800 600) = Num r \<longrightarrow> node_fy m = Num r"
    and x: "node_x (hubNode ''192.168.2.1'' 800 600) \<notin> range Num
        \<longrightarrow> node_x m = node_x (hubNode ''192.168.2.1'' 1000 800)"
    and y: "node_y (hubNode ''192.168.2.1'' 800 600) \<notin> range Num
        \<longrightarrow> node_y m = node_y (hubNode ''192.168.2.1'' 1000 800)"
    by blast
  from fx have "node_fx m = Num 400" by (simp add: hubNode_def)
  moreover from fy have "node_fy m = Num 300" by (simp add: hubNode_def)
  moreover from x have "node_x m = Undefined" by (auto simp: hubNode_def)
  moreover from y have "node_y m = Undefined" by (auto simp: hubNode_def)
  ultimately show ?thesis using m by (simp add: reloaded_hub hubNode_def)
qed


section \<open>Claim C9: loopback tuples\<close>

text \<open>
  C9. A tuple whose source or target is \<open>127.0.0.1\<close> is dropped by the filter at the head
  of the cycle: the cycle ends in the same state as without the tuple (so no node and no
  edge comes from it), in either copy of the card, and the tuple is not kept in the
  snapshot the next cycle diffs against.
\<close>

theorem loopback_excluded:
  assumes "source c = ''127.0.0.1'' \<or> target c = ''127.0.0.1''"
  shows "deltaUpdate e w h (xs @ c # ys) s = deltaUpdate e w h (xs @ ys) s
    \<and> deltaUpdate_p1 e w h (xs @ c # ys) s = deltaUpdate_p1 e w h (xs @ ys) s
    \<and> c \<notin> set (prevConnections (deltaUpdate e w h (xs @ c # ys) s))"
proof -
  have f: "filterLoopback (xs @ c # ys) = filterLoopback (xs @ ys)"
    using assms by (auto simp: filterLoopback_def)
  have "c \<notin> set (filterLoopback (xs @ c # ys))"
    using assms by (auto simp: filterLoopback_def)
  then have 3: "c \<notin> set (prevConnections (deltaUpdate e w h (xs @ c # ys) s))"
    by (simp add: deltaUpdate_prev)
  have 1: "deltaUpdate e w h (xs @ c # ys) s = deltaUpdate e w h (xs @ ys) s"
    by (simp only: deltaUpdate_def f)
  have 2: "deltaUpdate_p1 e w h (xs @ c # ys) s = deltaUpdate_p1 e w h (xs @ ys) s"
    by (simp only: deltaUpdate_p1_def f)
  from 1 2 3 show ?thesis by blast
qed

theorem loopback_excluded_witness:
  "deltaUpdate demoEnv 800 600 [mkConn ''127.0.0.1'' ''8.8.8.8'' 443] (initial None)
     = deltaUpdate demoEnv 800 600 [] (initial None)
   \<and> deltaUpdate_p1 demoEnv 800 600 [mkConn ''127.0.0.1'' ''8.8.8.8'' 443] (initial None)
     = deltaUpdate_p1 demoEnv 800 600 [] (initial None)
   \<and> mkConn ''127.0.0.1'' ''8.8.8.8'' 443 \<notin> set (prevConnections
       (deltaUpdate demoEnv 800 600 [mkConn ''127.0.0.1'' ''8.8.8.8'' 443] (initial None)))"
proof -
  have h: "source (mkConn ''127.0.0.1'' ''8.8.8.8'' 443) = ''127.0.0.1''
      \<or> target (mkConn ''127.0.0.1'' ''8.8.8.8'' 443) = ''127.0.0.1''"
    by (simp add: mkConn_def)
  show ?thesis
    using loopback_excluded [OF h, of demoEnv 800 600 "[]" "[]" "initial None"]
    unfolding append_Nil .
qed

section \<open>Claim C10: removal by endpoints\<close>

text \<open>
  C10, as amended. Let \<open>c = (s, t, p)\<close> be a removed tuple of a cycle. The removal loop
  deletes every edge \<open>(s, port-p)\<close> and every edge \<open>(port-p, t)\<close>, duplicates included, from
  whatever edge list it is given. After the cycle such an edge is in the edge list only
  if it is the edge from the hub to a port of the current snapshot, which the hub loop
  puts back (so \<open>s\<close>, respectively \<open>port-p\<close>, is the hub id). In particular, when a
  current tuple has the source and port of the removed one and the source is not the hub
  id, its source edge is absent after the cycle.
\<close>

theorem removal_by_endpoints:
  assumes "c \<in> set (removedConnections (prevConnections s) (filterLoopback cs))"
  shows "(source c, portNodeId (port c))
           \<notin> set (processRemoved (removedConnections (prevConnections s) (filterLoopback cs)) lks)
    \<and> (portNodeId (port c), target c)
           \<notin> set (processRemoved (removedConnections (prevConnections s) (filterLoopback cs)) lks)
    \<and> ((source c, portNodeId (port c)) \<in> set (links (deltaUpdate e w h cs s)) \<longrightarrow>
          source c = hubId e \<and> port c \<in> set (map port (filterLoopback cs)))
    \<and> ((portNodeId (port c), target c) \<in> set (links (deltaUpdate e w h cs s)) \<longrightarrow>
          portNodeId (port c) = hubId e \<and> target c \<in> portNodeId ` set (map port (filterLoopback cs)))
    \<and> (\<forall>c' \<in> set (filterLoopback cs).
          source c' = source c \<and> port c' = port c \<and> source c \<noteq> hubId e \<longrightarrow>
          (source c', portNodeId (port c')) \<notin> set (links (deltaUpdate e w h cs s)))"
proof -
  have 3: "source c = hubId e \<and> port c \<in> set (map port (filterLoopback cs))"
    if "(source c, portNodeId (port c)) \<in> set (links (deltaUpdate e w h cs s))"
  proof -
    from removed_edge_in_final[OF assms that] obtain p where
      "p \<in> set (map port (filterLoopback cs))" "source c = hubId e" "portNodeId (port c) = portNodeId p"
      by auto
    then show ?thesis using portNodeId_inj by blast
  qed
  have 4: "portNodeId (port c) = hubId e \<and> target c \<in> portNodeId ` set (map port (filterLoopback cs))"
    if "(portNodeId (port c), target c) \<in> set (links (deltaUpdate e w h cs s))"
    using removed_edge_in_final[OF assms that] by auto
  from 3 have 5: "\<forall>c' \<in> set (filterLoopback cs).
          source c' = source c \<and> port c' = port c \<and> source c \<noteq> hubId e \<longrightarrow>
          (source c', portNodeId (port c')) \<notin> set (links (deltaUpdate e w h cs s))"
    by auto
  from processRemoved_gone[OF assms, of lks] 3 4 5 show ?thesis by blast
qed


theorem removal_by_endpoints_witness:
  "mkConn ''10.0.0.2'' ''8.8.8.8'' 80 \<in> set (removedConnections (prevConnections twoSameSource)
       (filterLoopback [mkConn ''10.0.0.2'' ''1.1.1.1'' 80]))
   \<and> mkConn ''10.0.0.2'' ''1.1.1.1'' 80 \<in> set (filterLoopback [mkConn ''10.0.0.2'' ''1.1.1.1'' 80])
   \<and> (''10.0.0.2'', ''port-80'') \<in> set (links twoSameSource)
   \<and> (''10.0.0.2'', ''port-80'')
        \<notin> set (links (deltaUpdate demoEnv 800 600 [mkConn ''10.0.0.2'' ''1.1.1.1'' 80] twoSameSource))"
proof -
  have r: "mkConn ''10.0.0.2'' ''8.8.8.8'' 80 \<in> set (removedConnections (prevConnections twoSameSource)
       (filterLoopback [mkConn ''10.0.0.2'' ''1.1.1.1'' 80]))"
    by (simp add: twoSameSource_removed)
  have m: "mkConn ''10.0.0.2'' ''1.1.1.1'' 80 \<in> set (filterLoopback [mkConn ''10.0.0.2'' ''1.1.1.1'' 80])"
    by (simp add: filterLoopback_def mkConn_def)
  have b: "(''10.0.0.2'', ''port-80'') \<in> set (links twoSameSource)"
    by (simp add: twoSameSource_links)
  have "\<forall>c' \<in> set (filterLoopback [mkConn ''10.0.0.2'' ''1.1.1.1'' 80]).
          source c' = source (mkConn ''10.0.0.2'' ''8.8.8.8'' 80)
            \<and> port c' = port (mkConn ''10.0.0.2'' ''8.8.8.8'' 80)
            \<and> source (mkConn ''10.0.0.2'' ''8.8.8.8'' 80) \<noteq> hubId demoEnv \<longrightarrow>
          (source c', portNodeId (port c'))
            \<notin> set (links (deltaUpdate demoEnv 800 600 [mkConn ''10.0.0.2'' ''1.1.1.1'' 80] twoSameSource))"
    using removal_by_endpoints [OF r, of "[]" demoEnv 800 600] by blast
  with m have "(''10.0.0.2'', ''port-80'')
        \<notin> set (links (deltaUpdate demoEnv 800 600 [mkConn ''10.0.0.2'' ''1.1.1.1'' 80] twoSameSource))"
    by (simp add: mkConn_def demoEnv_def pid80 filterLoopback_def)
  with r m b show ?thesis by blast
qed


text \<open>
  As stated, C10 says that no edge with the endpoints of a removed tuple is added again
  in the same cycle. With the hub id as the source of the removed tuple and its port
  still in the snapshot, the removal loop deletes the edge from the hub to the port and
  the hub loop of the same cycle adds it again.
\<close>

theorem removal_by_endpoints_counterexample:
  "mkConn ''192.168.2.1'' ''8.8.8.8'' 80 \<in> set (removedConnections (prevConnections hubAsSource)
       (filterLoopback [mkConn ''10.0.0.2'' ''1.1.1.1'' 80]))
   \<and> (source (mkConn ''192.168.2.1'' ''8.8.8.8'' 80), portNodeId (port (mkConn ''192.168.2.1'' ''8.8.8.8'' 80)))
        = (''192.168.2.1'', ''port-80'')
   \<and> (''192.168.2.1'', ''port-80'') \<in> set (links hubAsSource)
   \<and> (''192.168.2.1'', ''port-80'') \<notin> set (processRemoved
         (removedConnections (prevConnections hubAsSource)
            (filterLoopback [mkConn ''10.0.0.2'' ''1.1.1.1'' 80])) (links hubAsSource))
   \<and> (''192.168.2.1'', ''port-80'')
        \<in> set (links (deltaUpdate demoEnv 800 600 [mkConn ''10.0.0.2'' ''1.1.1.1'' 80] hubAsSource))"
  unfolding hubAsSource_removed hubAsSource_next_links hubAsSource_links
  by (simp add: mkConn_def pid80 processRemoved_def removeConnection_def linkKey_def)

end
